theory Spec2Isabelle
  imports Complex_Main
begin

section \<open>Loop-state data model\<close>

text \<open>
  The sketch search policy (\<^verbatim>\<open>sketch_search_policy.cc\<close>) works on loop states. The header
  that declares them (\<^verbatim>\<open>loop_state.h\<close>) is not part of the exhibited sources, so the types
  below follow the data model of the specification: a state holds its stages, the history
  of transform steps, the attach map and the \<^verbatim>\<open>concrete\<close> flag.

  Fatal errors (a failed \<^verbatim>\<open>CHECK\<close>, an index outside an array, a remainder by zero, a
  missing key in \<^verbatim>\<open>at\<close>) are values of type \<open>error\<close>; a function that can abort returns
  \<open>error + 'a\<close>. \<open>OutOfFuel\<close> is the result of a loop that was cut off by its fuel.
\<close>

datatype error = CheckFailed | IndexError | DivideByZero | KeyError | OutOfFuel

datatype StageKind = kPlaceholder | kCompute

datatype ComputeAtKind = kRoot | kInlined | kIter

datatype IteratorKind = kSpatial | kReduction

datatype IteratorAnnotation = kNone | kParallel | kVectorize | kUnroll | kTensorize

record Iterator =
  name :: string
  range_extent :: "int option"
  iter_kind :: IteratorKind
  annotation :: IteratorAnnotation

record Operation =
  op_name :: string
  attrs :: "(string \<times> string) list"

record Stage =
  op :: Operation
  op_type :: StageKind
  iters :: "Iterator list"
  compute_at :: ComputeAtKind

text \<open>
  The transform steps. Only \<open>SplitStep\<close> is built and taken apart by the policy itself:
  \<^verbatim>\<open>SplitStep(stage_id, iter_id, extent, lengths, inner_to_outer)\<close>, with an optional
  extent and optional lengths. The other steps are only ever produced by the loop-state
  mutators; they carry their stage id and their remaining arguments as integers.
\<close>

datatype Step =
    SplitStep int int "int option" "int option list" bool
  | FuseStep int "int list"
  | ReorderStep int "int list"
  | ComputeAtStep int "int list"
  | ComputeInlineStep int
  | ComputeRootStep int
  | CacheReadStep int "int list"
  | CacheWriteStep int "int list"
  | RfactorStep int "int list"
  | ParallelStep int "int list"
  | VectorizeStep int "int list"
  | UnrollStep int "int list"
  | PragmaStep int "int list" string
  | TensorizeStep int "int list" string

record AttachMap =
  stage_to_attach_iter :: "(int \<times> (int \<times> int)) list"
  iter_to_attached_stages :: "((int \<times> int) \<times> int list) list"

record State =
  stages :: "Stage list"
  transform_steps :: "Step list"
  attach_map :: AttachMap
  concrete :: bool

datatype ConditionKind = kPass | kApply | kApplyAndSkipRest

datatype ResultKind = kValid | kInvalid

text \<open>\<^verbatim>\<open>Array::operator[]\<close> and the unchecked \<^verbatim>\<open>std::vector\<close> index: outside the range
  the program aborts (or is undefined), which the model records as \<open>IndexError\<close>.\<close>

definition at_index :: "'a list \<Rightarrow> int \<Rightarrow> error + 'a" where
  "at_index xs i = (if 0 \<le> i \<and> i < int (length xs) then Inr (xs ! nat i) else Inl IndexError)"

text \<open>The extents of the loop state are 64-bit integers (\<^verbatim>\<open>int64_t\<close>, the value of an
  \<^verbatim>\<open>IntImm\<close>), and integers here. Where the policy stores one in an \<^verbatim>\<open>int\<close>, the conversion
  keeps the low 32 bits, read as a signed number.\<close>

definition narrow_int :: "int \<Rightarrow> int" where
  "narrow_int x = (x + 2147483648) mod 4294967296 - 2147483648"

section \<open>What the policy takes from the rest of the repository\<close>

text \<open>
  The helper functions of \<^verbatim>\<open>utils.h\<close>, the mutators of the loop state and the compute DAG
  are used by the policy but are not among the exhibited sources. They are parameters of
  this development: a record of functions, named as in the source, about which nothing is
  assumed. The search task that the source passes to some of them is fixed during a
  search, so it is not an argument here. An out-parameter of the source is a component of
  the result.
\<close>

record Utils =
  IsOutputOp :: "State \<Rightarrow> int \<Rightarrow> bool"
  HasReduceIter :: "Stage \<Rightarrow> bool"
  HasAttrsFlag :: "State \<Rightarrow> int \<Rightarrow> string \<Rightarrow> bool"
  IsStrictInlineable :: "State \<Rightarrow> int \<Rightarrow> bool"
  NeedsMultilevelTiling :: "State \<Rightarrow> int \<Rightarrow> bool"
  HasSingleElementwiseMatchedConsumer :: "State \<Rightarrow> int \<Rightarrow> bool"
  matched_consumer_target :: "State \<Rightarrow> int \<Rightarrow> int \<Rightarrow> int"
  HasCacheWriteStage :: "State \<Rightarrow> int \<Rightarrow> bool"
  HasFuseFactorableReduction :: "State \<Rightarrow> int \<Rightarrow> bool"
  IsTiled :: "Stage \<Rightarrow> bool"
  GetSingleConsumerId :: "State \<Rightarrow> int \<Rightarrow> int"
  GetExtent :: "Iterator \<Rightarrow> int"
  StrEndsWith :: "string \<Rightarrow> string \<Rightarrow> bool"
  HasAnnotatedIter :: "Stage \<Rightarrow> IteratorAnnotation \<Rightarrow> bool"
  GetIterNameSetParam :: "(string \<times> string) list \<Rightarrow> string \<Rightarrow> string set"
  ExtractOriginalIterators :: "string \<Rightarrow> string set \<Rightarrow> string set"
  ToStr :: "State \<Rightarrow> string"

text \<open>
  \<^verbatim>\<open>HasSingleElementwiseMatchedConsumer\<close> has an optional out-parameter
  \<^verbatim>\<open>int* target_stage_id\<close>. Its answer is the field of that name;
  \<open>matched_consumer_target U s i t\<close> is the value it leaves behind the pointer when the
  value there was \<open>t\<close> before the call. \<open>HasFuseFactorableReduction\<close> is the condition that the
  specification gives for the rfactor rule next to the need for multi-level tiling (see
  \<open>NeedsRfactor\<close> below).
\<close>

record Transforms =
  DoMultiLevelTiling :: "State \<Rightarrow> int \<Rightarrow> string \<Rightarrow> State \<times> int list"
  FollowTiling :: "State \<Rightarrow> int \<Rightarrow> int list \<Rightarrow> int \<Rightarrow> State"
  FuseAllReductionIterators ::
    "State \<Rightarrow> int \<Rightarrow> State \<times> Iterator \<times> Iterator list \<times> Iterator list"
  compute_inline :: "State \<Rightarrow> int \<Rightarrow> State"
  compute_at_iter :: "State \<Rightarrow> int \<Rightarrow> int \<Rightarrow> Iterator \<Rightarrow> State"
  compute_root :: "State \<Rightarrow> int \<Rightarrow> State"
  cache_write :: "State \<Rightarrow> int \<Rightarrow> string \<Rightarrow> State \<times> int"
  split_iter :: "State \<Rightarrow> int \<Rightarrow> Iterator \<Rightarrow> int option list \<Rightarrow> State \<times> Iterator list"
  rfactor :: "State \<Rightarrow> int \<Rightarrow> Iterator \<Rightarrow> int \<Rightarrow> State \<times> int"
  reorder :: "State \<Rightarrow> int \<Rightarrow> Iterator list \<Rightarrow> State"
  fuse :: "State \<Rightarrow> int \<Rightarrow> Iterator list \<Rightarrow> State \<times> Iterator"
  parallel :: "State \<Rightarrow> int \<Rightarrow> Iterator \<Rightarrow> State"
  vectorize :: "State \<Rightarrow> int \<Rightarrow> Iterator \<Rightarrow> State"
  unroll :: "State \<Rightarrow> int \<Rightarrow> Iterator \<Rightarrow> State"
  pragma :: "State \<Rightarrow> int \<Rightarrow> Iterator \<Rightarrow> string \<Rightarrow> State"
  InferBound :: "State \<Rightarrow> State"

text \<open>
  \<open>compute_at_iter\<close> is \<^verbatim>\<open>State::compute_at\<close> and \<open>split_iter\<close> is \<^verbatim>\<open>State::split\<close> (the
  plain names are taken by the field of a stage and by a proof method). A mutator changes
  the state it is called on: the model returns the changed state, paired with the value
  the source returns where it returns one.
\<close>

type_synonym Rng = "nat \<Rightarrow> nat"

text \<open>The random generator \<^verbatim>\<open>std::mt19937\<close> is the stream of its future outputs; a call
  takes the first and leaves the rest.\<close>

definition rand_next :: "Rng \<Rightarrow> nat \<times> Rng" where
  "rand_next g = (g 0, \<lambda>i. g (Suc i))"

record MeasureResult =
  costs :: "real list"

text \<open>
  The measurer and the cost model are external. The state of a measurer is the history of
  the calls it received; what it answers is a function of that history. Of the cost model
  the policy only asks whether it is the \<^verbatim>\<open>RandomModel\<close>, and sends it updates.
\<close>

datatype MeasureEvent = Reset | Measure "State list"

type_synonym ProgramMeasurer = "MeasureEvent list"

record CostModel =
  is_random_model :: bool

text \<open>What a search does to its collaborators: the calls the measurer received, the
  updates the cost model received, and, for the record, the argument of every call of
  \<^verbatim>\<open>SearchOneRound\<close> in order.\<close>

record Collaborators =
  measurer :: ProgramMeasurer
  cost_model_updates :: "(State list \<times> MeasureResult list) list"
  rounds :: "int list"

record Collab =
  measure_results :: "ProgramMeasurer \<Rightarrow> State list \<Rightarrow> MeasureResult list"
  best_ct :: "ProgramMeasurer \<Rightarrow> int"
  best_state :: "ProgramMeasurer \<Rightarrow> State"
  FloatArrayMean :: "real list \<Rightarrow> real"
  Argsort :: "real list \<Rightarrow> int list"
  RandomSampleStates :: "State list \<Rightarrow> Rng \<Rightarrow> int \<Rightarrow> State list \<times> Rng"

record Env =
  utils :: Utils
  transforms :: Transforms
  collab :: Collab

section \<open>The policy object\<close>

text \<open>
  The parameters read with \<^verbatim>\<open>GetIntParam\<close>, \<^verbatim>\<open>GetStringParam\<close> and \<^verbatim>\<open>GetDoubleParam\<close>. The
  two floating-point parameters are only ever used in \<^verbatim>\<open>static_cast<int>(p * n)\<close>, so each
  is given as that function of \<open>n\<close>.
\<close>

record Params =
  eps_greedy_times :: "int \<Rightarrow> int"
  use_measured_ratio_times :: "int \<Rightarrow> int"
  population :: int
  max_innermost_split_factor :: int
  max_vectorize_size :: int
  disable_change_compute_location :: int
  cpu_structure :: string

datatype SketchRule =
    RuleAlwaysInline | RuleAddRfactor | RuleAddCacheWrite
  | RuleMultiLevelTilingWithFusion | RuleMultiLevelTiling | RuleSkipStage

datatype InitRule =
    InitFillTileSize | InitChangeComputeLocation | InitParallel | InitVectorization | InitUnroll

record SearchTask =
  init_state :: State
  num_cores :: int

text \<open>
  \<open>target_stage_id\<close> is the private member of the rule object
  \<^verbatim>\<open>rule_multi_level_tiling_with_fusion\<close>, which its \<^verbatim>\<open>MeetCondition\<close> writes and its
  \<^verbatim>\<open>Apply\<close> reads; it is kept with the policy that owns the rule list. The members
  \<^verbatim>\<open>measured_states_set_\<close>, \<^verbatim>\<open>measured_states_vector_\<close>, \<^verbatim>\<open>measured_states_throughputs_\<close>
  and \<^verbatim>\<open>num_measure_per_iter_\<close> lose their last underscore, which a field name cannot have.
\<close>

record Policy =
  search_task :: SearchTask
  schedule_cost_model :: CostModel
  params :: Params
  rand_gen :: Rng
  sketch_rules :: "SketchRule list"
  init_rules :: "InitRule list"
  measured_states_set :: "string set"
  measured_states_vector :: "State list"
  measured_states_throughputs :: "real list"
  num_measure_per_iter :: int
  target_stage_id :: int

section \<open>PickStatesWithEpsGreedy\<close>

text \<open>One turn of the choice between the two lists: the state taken and the two
  offsets after it, or \<open>None\<close> at \<^verbatim>\<open>break\<close>.\<close>

definition pick_select ::
  "int \<Rightarrow> State list \<Rightarrow> State list \<Rightarrow> nat \<Rightarrow> nat \<Rightarrow> nat \<Rightarrow> (State \<times> nat \<times> nat) option" where
  "pick_select num_good best_states random_states offset_best offset_random n_inputs =
     (let has_best = offset_best < length best_states;
          has_random = offset_random < length random_states
      in if int n_inputs < num_good then
           (if has_best then Some (best_states ! offset_best, offset_best + 1, offset_random)
            else if has_random then
              Some (random_states ! offset_random, offset_best, offset_random + 1)
            else None)
         else
           (if has_random then
              Some (random_states ! offset_random, offset_best, offset_random + 1)
            else if has_best then Some (best_states ! offset_best, offset_best + 1, offset_random)
            else None))"

text \<open>The check against the states measured so far: a new state is recorded in the set
  and the vector and joins the inputs.\<close>

definition pick_check :: "Utils \<Rightarrow> State \<Rightarrow> State list \<times> Policy \<Rightarrow> State list \<times> Policy" where
  "pick_check U state ip =
     (let inputs = fst ip; pol = snd ip; state_str = ToStr U state
      in if state_str \<notin> measured_states_set pol then
           (inputs @ [state],
            pol\<lparr>measured_states_set := insert state_str (measured_states_set pol),
                measured_states_vector := measured_states_vector pol @ [state]\<rparr>)
         else (inputs, pol))"

function PickStates_loop ::
  "Utils \<Rightarrow> int \<Rightarrow> int \<Rightarrow> State list \<Rightarrow> State list \<Rightarrow> nat \<Rightarrow> nat \<Rightarrow> State list \<times> Policy
     \<Rightarrow> State list \<times> Policy" where
  "PickStates_loop U cap num_good best_states random_states offset_best offset_random ip =
     (if int (length (fst ip)) < cap then
        (case pick_select num_good best_states random_states offset_best offset_random
                (length (fst ip)) of
           None \<Rightarrow> ip
         | Some (state, ob, orr) \<Rightarrow>
             PickStates_loop U cap num_good best_states random_states ob orr
               (pick_check U state ip))
      else ip)"
  by pat_completeness auto
termination
  by (relation "measure (\<lambda>(U, cap, num_good, best_states, random_states, ob, orr, ip).
        (length best_states - ob) + (length random_states - orr))")
     (auto simp: pick_select_def Let_def split: if_splits)

declare PickStates_loop.simps [simp del]

definition PickStatesWithEpsGreedy ::
  "Env \<Rightarrow> Policy \<Rightarrow> State list \<Rightarrow> State list \<Rightarrow> int \<Rightarrow> State list \<times> Policy" where
  "PickStatesWithEpsGreedy E pol best_states random_states remaining_n_trials =
     (let num_random = eps_greedy_times (params pol) (num_measure_per_iter pol);
          num_good = num_measure_per_iter pol - num_random
      in PickStates_loop (utils E) (min (num_measure_per_iter pol) remaining_n_trials) num_good
           best_states random_states 0 0 ([], pol))"

text \<open>A sequence of calls within one search: each call gives the two lists and the
  remaining number of trials, and the policy goes from one call to the next.\<close>

fun PickStates_calls ::
  "Env \<Rightarrow> Policy \<Rightarrow> (State list \<times> State list \<times> int) list \<Rightarrow> State list list \<times> Policy" where
  "PickStates_calls E pol [] = ([], pol)"
| "PickStates_calls E pol ((best_states, random_states, remaining) # calls) =
     (let r = PickStatesWithEpsGreedy E pol best_states random_states remaining;
          rest = PickStates_calls E (snd r) calls
      in (fst r # fst rest, snd rest))"

section \<open>Sketch generation rules\<close>

text \<open>Modelled from the spec: the keys of \<^verbatim>\<open>SearchPolicyKey\<close>, whose header is not among the
  sources. The specification names the attribute tags that the policy reads.\<close>

definition always_compute_inline :: string where
  "always_compute_inline = ''always_compute_inline''"

definition no_cache_write :: string where
  "no_cache_write = ''no_cache_write''"

definition always_unroll :: string where
  "always_unroll = ''always_unroll''"

definition always_unroll_inner :: string where
  "always_unroll_inner = ''always_unroll_inner''"

definition ShouldAlwaysBeInlined :: "Env \<Rightarrow> Policy \<Rightarrow> State \<Rightarrow> int \<Rightarrow> error + bool" where
  "ShouldAlwaysBeInlined E policy state stage_id =
     (case at_index (stages state) stage_id of
        Inl e \<Rightarrow> Inl e
      | Inr stage \<Rightarrow>
          if op_type stage = kPlaceholder then Inr False
          else if \<not> IsOutputOp (utils E) state stage_id \<and> \<not> HasReduceIter (utils E) stage then
            (if HasAttrsFlag (utils E) state stage_id always_compute_inline \<or>
                IsStrictInlineable (utils E) state stage_id
             then Inr True else Inr False)
          else Inr False)"

definition RuleAlwaysInline_MeetCondition ::
  "Env \<Rightarrow> Policy \<Rightarrow> State \<Rightarrow> int \<Rightarrow> error + ConditionKind" where
  "RuleAlwaysInline_MeetCondition E policy state stage_id =
     (case ShouldAlwaysBeInlined E policy state stage_id of
        Inl e \<Rightarrow> Inl e
      | Inr b \<Rightarrow> Inr (if b then kApplyAndSkipRest else kPass))"

definition RuleAlwaysInline_Apply :: "Env \<Rightarrow> Policy \<Rightarrow> State \<Rightarrow> int \<Rightarrow> (State \<times> int) list" where
  "RuleAlwaysInline_Apply E policy state stage_id =
     (let tmp_s = compute_inline (transforms E) state stage_id
      in [(tmp_s, stage_id - 1)])"

definition RuleSkipStage_MeetCondition :: "Env \<Rightarrow> Policy \<Rightarrow> State \<Rightarrow> int \<Rightarrow> ConditionKind" where
  "RuleSkipStage_MeetCondition E policy state stage_id = kApply"

definition RuleSkipStage_Apply :: "Env \<Rightarrow> Policy \<Rightarrow> State \<Rightarrow> int \<Rightarrow> (State \<times> int) list" where
  "RuleSkipStage_Apply E policy state stage_id = [(state, stage_id - 1)]"

definition RuleMultiLevelTiling_MeetCondition ::
  "Env \<Rightarrow> Policy \<Rightarrow> State \<Rightarrow> int \<Rightarrow> ConditionKind" where
  "RuleMultiLevelTiling_MeetCondition E policy state stage_id =
     (if NeedsMultilevelTiling (utils E) state stage_id then kApply else kPass)"

definition RuleMultiLevelTiling_Apply ::
  "Env \<Rightarrow> Policy \<Rightarrow> State \<Rightarrow> int \<Rightarrow> (State \<times> int) list" where
  "RuleMultiLevelTiling_Apply E policy state stage_id =
     (let multi_level_tiling_structure = cpu_structure (params policy);
          tmp_s = fst (DoMultiLevelTiling (transforms E) state stage_id
                         multi_level_tiling_structure)
      in [(tmp_s, stage_id - 1)])"

text \<open>\<^verbatim>\<open>tolower\<close> on the characters of the structure string, and the index of a
  \<^verbatim>\<open>std::string\<close>: at the length it reads the terminating zero, beyond it nothing is
  defined.\<close>

definition tolower :: "char \<Rightarrow> char" where
  "tolower c =
     (case map_of (zip ''ABCDEFGHIJKLMNOPQRSTUVWXYZ'' ''abcdefghijklmnopqrstuvwxyz'') c of
        Some d \<Rightarrow> d
      | None \<Rightarrow> c)"

definition string_at :: "string \<Rightarrow> int \<Rightarrow> error + char" where
  "string_at str i =
     (if 0 \<le> i \<and> i < int (length str) then Inr (str ! nat i)
      else if i = int (length str) then Inr (CHR 0x00)
      else Inl IndexError)"

text \<open>The condition of the fusion rule. The conjunction of the source is evaluated from
  the left: the consumer is only looked up, and \<open>target_stage_id\<close> only written, for a
  stage that needs multi-level tiling.\<close>

definition RuleMultiLevelTilingWithFusion_MeetCondition ::
  "Env \<Rightarrow> Policy \<Rightarrow> State \<Rightarrow> int \<Rightarrow> ConditionKind \<times> Policy" where
  "RuleMultiLevelTilingWithFusion_MeetCondition E policy state stage_id =
     (if NeedsMultilevelTiling (utils E) state stage_id then
        (let policy' = policy\<lparr>target_stage_id :=
                 matched_consumer_target (utils E) state stage_id (target_stage_id policy)\<rparr>
         in if HasSingleElementwiseMatchedConsumer (utils E) state stage_id then
              (if HasCacheWriteStage (utils E) state stage_id then kApplyAndSkipRest else kApply,
               policy')
            else (kPass, policy'))
      else (kPass, policy))"

text \<open>The loop over \<^verbatim>\<open>follow_tiling_levels\<close>.\<close>

fun follow_tiling_loop ::
  "Env \<Rightarrow> Policy \<Rightarrow> State \<Rightarrow> int list \<Rightarrow> string \<Rightarrow> int \<Rightarrow> int list
     \<Rightarrow> error + (State \<times> int) list" where
  "follow_tiling_loop E policy base_state spatial_split_step_ids structure stage_id [] = Inr []"
| "follow_tiling_loop E policy base_state spatial_split_step_ids structure stage_id
     (level # levels) =
     (case string_at structure (level - 1) of
        Inl e \<Rightarrow> Inl e
      | Inr c \<Rightarrow>
          if tolower c \<noteq> CHR ''s'' then
            follow_tiling_loop E policy base_state spatial_split_step_ids structure stage_id
              levels
          else
            (let tmp_s = FollowTiling (transforms E) base_state (target_stage_id policy)
                           spatial_split_step_ids level
             in case at_index (stages tmp_s) (target_stage_id policy) of
                  Inl e \<Rightarrow> Inl e
                | Inr target_stage \<Rightarrow>
                    (case at_index (iters target_stage)
                            (level * int (length spatial_split_step_ids) - 1) of
                       Inl e \<Rightarrow> Inl e
                     | Inr target_iter \<Rightarrow>
                         (case follow_tiling_loop E policy base_state spatial_split_step_ids
                                 structure stage_id levels of
                            Inl e \<Rightarrow> Inl e
                          | Inr ret \<Rightarrow>
                              Inr ((compute_at_iter (transforms E) tmp_s stage_id
                                      (target_stage_id policy) target_iter, stage_id - 1)
                                   # ret)))))"

definition RuleMultiLevelTilingWithFusion_Apply ::
  "Env \<Rightarrow> Policy \<Rightarrow> State \<Rightarrow> int \<Rightarrow> error + (State \<times> int) list" where
  "RuleMultiLevelTilingWithFusion_Apply E policy state stage_id =
     (let multi_level_tiling_structure = cpu_structure (params policy);
          tiled = DoMultiLevelTiling (transforms E) state stage_id multi_level_tiling_structure;
          base_state = fst tiled;
          spatial_split_step_ids = snd tiled
      in follow_tiling_loop E policy base_state spatial_split_step_ids
           multi_level_tiling_structure stage_id [1, 2])"

definition RuleAddCacheWrite_MeetCondition ::
  "Env \<Rightarrow> Policy \<Rightarrow> State \<Rightarrow> int \<Rightarrow> ConditionKind" where
  "RuleAddCacheWrite_MeetCondition E policy state stage_id =
     (if HasAttrsFlag (utils E) state stage_id no_cache_write then kPass
      else if NeedsMultilevelTiling (utils E) state stage_id \<and>
              \<not> HasSingleElementwiseMatchedConsumer (utils E) state stage_id then kApply
      else kPass)"

definition RuleAddCacheWrite_Apply :: "Env \<Rightarrow> Policy \<Rightarrow> State \<Rightarrow> int \<Rightarrow> (State \<times> int) list" where
  "RuleAddCacheWrite_Apply E policy state stage_id =
     (let tmp_s = fst (cache_write (transforms E) state stage_id ''local'')
      in [(tmp_s, stage_id)])"

text \<open>Modelled from the spec: \<^verbatim>\<open>NeedsRfactor\<close>, a helper of \<^verbatim>\<open>utils.h\<close> that is not among
  the sources. The specification gives the condition of the rfactor rule as: the op needs
  multi-level tiling, has no cache-write stage yet, and has a reduction axis that is
  fuse-factorable. The cache-write test is in the rule itself, the rest is this helper.\<close>

definition NeedsRfactor :: "Env \<Rightarrow> State \<Rightarrow> int \<Rightarrow> bool" where
  "NeedsRfactor E state stage_id =
     (NeedsMultilevelTiling (utils E) state stage_id \<and>
      HasFuseFactorableReduction (utils E) state stage_id)"

definition RuleAddRfactor_MeetCondition :: "Env \<Rightarrow> Policy \<Rightarrow> State \<Rightarrow> int \<Rightarrow> ConditionKind" where
  "RuleAddRfactor_MeetCondition E policy state stage_id =
     (if NeedsRfactor E state stage_id \<and> \<not> HasCacheWriteStage (utils E) state stage_id
      then kApply else kPass)"

text \<open>The reordering of the rfactor stage: every iterator but the one at position
  \<^verbatim>\<open>space_iters.size()\<close>, then that one.\<close>

definition reorder_space_innermost :: "Env \<Rightarrow> State \<Rightarrow> int \<Rightarrow> nat \<Rightarrow> error + State" where
  "reorder_space_innermost E tmp_s rstage_id n_space =
     (case at_index (stages tmp_s) rstage_id of
        Inl e \<Rightarrow> Inl e
      | Inr rstage \<Rightarrow>
          (let new_order = map (\<lambda>i. iters rstage ! i)
                             (filter (\<lambda>i. i \<noteq> n_space) [0..<length (iters rstage)])
           in case at_index (iters rstage) (int n_space) of
                Inl e \<Rightarrow> Inl e
              | Inr it \<Rightarrow> Inr (reorder (transforms E) tmp_s rstage_id (new_order @ [it]))))"

text \<open>The loop over \<^verbatim>\<open>split_res\<close>. The iterators that a split returns are distinct objects
  and the source compares them by identity, so \<^verbatim>\<open>split_iter == split_res[1]\<close> holds at
  position 1 of the list and nowhere else; the loop runs over the positions.\<close>

fun rfactor_loop ::
  "Env \<Rightarrow> State \<Rightarrow> Iterator list \<Rightarrow> nat \<Rightarrow> int \<Rightarrow> nat list \<Rightarrow> error + (State \<times> int) list" where
  "rfactor_loop E base_state split_res n_space stage_id [] = Inr []"
| "rfactor_loop E base_state split_res n_space stage_id (k # ks) =
     (let factored = rfactor (transforms E) base_state stage_id (split_res ! k) (int n_space);
          tmp_s = fst factored;
          rstage_id = snd factored
      in case at_index split_res 1 of
           Inl e \<Rightarrow> Inl e
         | Inr second \<Rightarrow>
             (case (if k = 1 then reorder_space_innermost E tmp_s rstage_id n_space
                    else Inr tmp_s) of
                Inl e \<Rightarrow> Inl e
              | Inr tmp_s' \<Rightarrow>
                  (case rfactor_loop E base_state split_res n_space stage_id ks of
                     Inl e \<Rightarrow> Inl e
                   | Inr ret \<Rightarrow> Inr ((tmp_s', rstage_id - 1) # ret))))"

definition RuleAddRfactor_Apply ::
  "Env \<Rightarrow> Policy \<Rightarrow> State \<Rightarrow> int \<Rightarrow> error + (State \<times> int) list" where
  "RuleAddRfactor_Apply E policy state stage_id =
     (let fused = FuseAllReductionIterators (transforms E) state stage_id;
          fused_reduce_iter = fst (snd fused);
          space_iters = fst (snd (snd fused));
          split = split_iter (transforms E) (fst fused) stage_id fused_reduce_iter [Some 1];
          base_state = fst split;
          split_res = snd split
      in rfactor_loop E base_state split_res (length space_iters) stage_id
           [0..<length split_res])"

text \<open>The two virtual methods, by rule. Only the fusion rule changes anything (its own
  member); an abort is an \<open>Inl\<close>.\<close>

fun MeetCondition ::
  "Env \<Rightarrow> SketchRule \<Rightarrow> Policy \<Rightarrow> State \<Rightarrow> int \<Rightarrow> error + ConditionKind \<times> Policy" where
  "MeetCondition E RuleAlwaysInline policy state stage_id =
     (case RuleAlwaysInline_MeetCondition E policy state stage_id of
        Inl e \<Rightarrow> Inl e
      | Inr cond \<Rightarrow> Inr (cond, policy))"
| "MeetCondition E RuleAddRfactor policy state stage_id =
     Inr (RuleAddRfactor_MeetCondition E policy state stage_id, policy)"
| "MeetCondition E RuleAddCacheWrite policy state stage_id =
     Inr (RuleAddCacheWrite_MeetCondition E policy state stage_id, policy)"
| "MeetCondition E RuleMultiLevelTilingWithFusion policy state stage_id =
     Inr (RuleMultiLevelTilingWithFusion_MeetCondition E policy state stage_id)"
| "MeetCondition E RuleMultiLevelTiling policy state stage_id =
     Inr (RuleMultiLevelTiling_MeetCondition E policy state stage_id, policy)"
| "MeetCondition E RuleSkipStage policy state stage_id =
     Inr (RuleSkipStage_MeetCondition E policy state stage_id, policy)"

fun Apply :: "Env \<Rightarrow> SketchRule \<Rightarrow> Policy \<Rightarrow> State \<Rightarrow> int \<Rightarrow> error + (State \<times> int) list" where
  "Apply E RuleAlwaysInline policy state stage_id =
     Inr (RuleAlwaysInline_Apply E policy state stage_id)"
| "Apply E RuleAddRfactor policy state stage_id = RuleAddRfactor_Apply E policy state stage_id"
| "Apply E RuleAddCacheWrite policy state stage_id =
     Inr (RuleAddCacheWrite_Apply E policy state stage_id)"
| "Apply E RuleMultiLevelTilingWithFusion policy state stage_id =
     RuleMultiLevelTilingWithFusion_Apply E policy state stage_id"
| "Apply E RuleMultiLevelTiling policy state stage_id =
     Inr (RuleMultiLevelTiling_Apply E policy state stage_id)"
| "Apply E RuleSkipStage policy state stage_id =
     Inr (RuleSkipStage_Apply E policy state stage_id)"

section \<open>GenerateSketches\<close>

text \<open>
  The map \<^verbatim>\<open>cur_stage_id_map\<close> is keyed by the identity of the state objects, and every
  state of a frontier is an object of its own, so a frontier is a list of pairs of a state
  and its working position. \<open>try_rules\<close> is the loop over the rules for one state: it
  appends to \<^verbatim>\<open>pnext\<close> and stops after a rule that answers \<^verbatim>\<open>kApplyAndSkipRest\<close>.
\<close>

fun try_rules ::
  "Env \<Rightarrow> SketchRule list \<Rightarrow> Policy \<Rightarrow> State \<Rightarrow> int \<Rightarrow> (State \<times> int) list
     \<Rightarrow> error + (State \<times> int) list \<times> Policy" where
  "try_rules E [] policy state stage_id pnext = Inr (pnext, policy)"
| "try_rules E (rule # rules) policy state stage_id pnext =
     (case MeetCondition E rule policy state stage_id of
        Inl e \<Rightarrow> Inl e
      | Inr (cond, policy') \<Rightarrow>
          if cond \<noteq> kPass then
            (case Apply E rule policy' state stage_id of
               Inl e \<Rightarrow> Inl e
             | Inr pairs \<Rightarrow>
                 if cond = kApplyAndSkipRest then Inr (pnext @ pairs, policy')
                 else try_rules E rules policy' state stage_id (pnext @ pairs))
          else try_rules E rules policy' state stage_id pnext)"

text \<open>The loop over the states of \<^verbatim>\<open>pnow\<close>: a state whose position is negative goes to
  the output.\<close>

fun expand_frontier ::
  "Env \<Rightarrow> Policy \<Rightarrow> (State \<times> int) list \<Rightarrow> (State \<times> int) list \<Rightarrow> State list
     \<Rightarrow> error + (State \<times> int) list \<times> State list \<times> Policy" where
  "expand_frontier E policy [] pnext out_states = Inr (pnext, out_states, policy)"
| "expand_frontier E policy ((state, stage_id) # pnow) pnext out_states =
     (if stage_id < 0 then expand_frontier E policy pnow pnext (out_states @ [state])
      else
        (case try_rules E (sketch_rules policy) policy state stage_id pnext of
           Inl e \<Rightarrow> Inl e
         | Inr (pnext', policy') \<Rightarrow> expand_frontier E policy' pnow pnext' out_states))"

text \<open>The loop \<^verbatim>\<open>while (!pnow->empty())\<close>. Nothing in the policy bounds the number of its
  rounds (the cache-write rule keeps the position, the mutators are not known), so it runs
  on fuel.\<close>

fun enumerate_sketches ::
  "nat \<Rightarrow> Env \<Rightarrow> Policy \<Rightarrow> (State \<times> int) list \<Rightarrow> State list \<Rightarrow> error + State list \<times> Policy" where
  "enumerate_sketches fuel E policy [] out_states = Inr (out_states, policy)"
| "enumerate_sketches 0 E policy (p # pnow) out_states = Inl OutOfFuel"
| "enumerate_sketches (Suc fuel) E policy (p # pnow) out_states =
     (case expand_frontier E policy (p # pnow) [] out_states of
        Inl e \<Rightarrow> Inl e
      | Inr (pnext, out_states', policy') \<Rightarrow>
          enumerate_sketches fuel E policy' pnext out_states')"

text \<open>The pass over the steps of an emitted state: the split before every rfactor step
  is replaced by one with the single undefined length \<^verbatim>\<open>{NullOpt}\<close>. The two \<^verbatim>\<open>CHECK\<close>s
  are its aborts.\<close>

fun is_RfactorStep :: "Step \<Rightarrow> bool" where
  "is_RfactorStep (RfactorStep stage_id args) = True"
| "is_RfactorStep step = False"

function unset_rfactor_splits :: "Step list \<Rightarrow> nat \<Rightarrow> error + Step list" where
  "unset_rfactor_splits steps step_id =
     (if step_id < length steps then
        (if is_RfactorStep (steps ! step_id) then
           (if step_id \<ge> 1 then
              (case steps ! (step_id - 1) of
                 SplitStep stage_id iter_id extent lengths inner_to_outer \<Rightarrow>
                   unset_rfactor_splits
                     (steps[step_id - 1 := SplitStep stage_id iter_id extent [None] inner_to_outer])
                     (step_id + 1)
               | _ \<Rightarrow> Inl CheckFailed)
            else Inl CheckFailed)
         else unset_rfactor_splits steps (step_id + 1))
      else Inr steps)"
  by pat_completeness auto
termination
  by (relation "measure (\<lambda>(steps, step_id). length steps - step_id)") auto

declare unset_rfactor_splits.simps [simp del]

fun unset_all :: "State list \<Rightarrow> error + State list" where
  "unset_all [] = Inr []"
| "unset_all (state # out_states) =
     (case unset_rfactor_splits (transform_steps state) 0 of
        Inl e \<Rightarrow> Inl e
      | Inr steps \<Rightarrow>
          (case unset_all out_states of
             Inl e \<Rightarrow> Inl e
           | Inr rest \<Rightarrow> Inr (state\<lparr>transform_steps := steps\<rparr> # rest)))"

definition GenerateSketches :: "nat \<Rightarrow> Env \<Rightarrow> Policy \<Rightarrow> error + State list \<times> Policy" where
  "GenerateSketches fuel E policy =
     (let init = init_state (search_task policy)
      in case enumerate_sketches fuel E policy [(init, int (length (stages init)) - 1)] [] of
           Inl e \<Rightarrow> Inl e
         | Inr (out_states, policy') \<Rightarrow>
             (case unset_all out_states of
                Inl e \<Rightarrow> Inl e
              | Inr out_states' \<Rightarrow> Inr (out_states', policy')))"

section \<open>Init population rules\<close>

subsection \<open>InitFillTileSize\<close>

text \<open>Modelled from the spec: \<^verbatim>\<open>SplitFactorizationMemo::GetFactorizationSchemes\<close>, whose
  class is not among the sources. The specification: for a split step with \<open>n\<close> lengths it
  enumerates all factorizations of the extent into \<open>n + 1\<close> positive integers where the
  innermost factor is at most \<^verbatim>\<open>max_innermost_split_factor\<close>. A scheme is the list of the
  \<open>n\<close> lengths of the step, outermost first, the last one being the innermost factor; the
  first of the \<open>n + 1\<close> integers is the extent that the split leaves to the outermost
  iterator, the quotient of the extent by the product of the lengths. The memo only
  caches what this function computes.\<close>

fun factor_tuples :: "nat \<Rightarrow> nat \<Rightarrow> nat list list" where
  "factor_tuples 0 e = [[]]"
| "factor_tuples (Suc n) e =
     concat (map (\<lambda>f. map (\<lambda>fs. f # fs) (factor_tuples n (e div f)))
               (filter (\<lambda>f. f dvd e) [1..<Suc e]))"

definition GetFactorizationSchemes :: "int \<Rightarrow> nat \<Rightarrow> int \<Rightarrow> int list list" where
  "GetFactorizationSchemes extent n max_innermost_factor =
     map (map int)
       (filter (\<lambda>fs. fs = [] \<or> int (last fs) \<le> max_innermost_factor)
          (factor_tuples n (nat extent)))"

definition all_defined :: "int option list \<Rightarrow> bool" where
  "all_defined lengths = list_all (\<lambda>len. len \<noteq> None) lengths"

text \<open>The loop over the step ids. \<^verbatim>\<open>CHECK(ps->extent)\<close> aborts on a split without extent;
  \<^verbatim>\<open>int extent = GetIntImm(ps->extent.value())\<close> narrows the extent to an \<^verbatim>\<open>int\<close>, and the
  schemes are those of the narrowed value, while the new step keeps the extent of the old
  one; with no scheme at all the remainder \<^verbatim>\<open>% candidate_lens.size()\<close> is a division by
  zero.\<close>

function fill_tile_sizes :: "Policy \<Rightarrow> Step list \<Rightarrow> nat \<Rightarrow> error + Step list \<times> Policy" where
  "fill_tile_sizes policy steps step_id =
     (if step_id < length steps then
        (case steps ! step_id of
           SplitStep stage_id iter_id extent lengths inner_to_outer \<Rightarrow>
             if all_defined lengths then fill_tile_sizes policy steps (step_id + 1)
             else
               (case extent of
                  None \<Rightarrow> Inl CheckFailed
                | Some ext \<Rightarrow>
                    (let extent' = narrow_int ext;
                         candidate_lens = GetFactorizationSchemes extent' (length lengths)
                                            (max_innermost_split_factor (params policy))
                     in if candidate_lens = [] then Inl DivideByZero
                        else
                          (let r = rand_next (rand_gen policy);
                               candidate_lengths =
                                 candidate_lens ! (fst r mod length candidate_lens)
                           in fill_tile_sizes (policy\<lparr>rand_gen := snd r\<rparr>)
                                (steps[step_id := SplitStep stage_id iter_id extent
                                                    (map Some candidate_lengths) inner_to_outer])
                                (step_id + 1))))
         | _ \<Rightarrow> fill_tile_sizes policy steps (step_id + 1))
      else Inr (steps, policy))"
  by pat_completeness auto
termination
  by (relation "measure (\<lambda>(policy, steps, step_id). length steps - step_id)") auto

declare fill_tile_sizes.simps [simp del]

definition InitFillTileSize_Apply ::
  "Env \<Rightarrow> Policy \<Rightarrow> State \<Rightarrow> error + ResultKind \<times> State \<times> Policy" where
  "InitFillTileSize_Apply E policy state =
     (case fill_tile_sizes policy (transform_steps state) 0 of
        Inl e \<Rightarrow> Inl e
      | Inr (steps, policy') \<Rightarrow>
          Inr (kValid, state\<lparr>transform_steps := steps, concrete := True\<rparr>, policy'))"

subsection \<open>InitChangeComputeLocation\<close>

definition attrs_count :: "Stage \<Rightarrow> string \<Rightarrow> bool" where
  "attrs_count stage key = (map_of (attrs (op stage)) key \<noteq> None)"

definition unroll_names :: "Env \<Rightarrow> Stage \<Rightarrow> string set" where
  "unroll_names E stage =
     (if attrs_count stage always_unroll
      then GetIterNameSetParam (utils E) (attrs (op stage)) always_unroll else {})"

definition has_attached :: "State \<Rightarrow> int \<Rightarrow> int \<Rightarrow> bool" where
  "has_attached state stage_id iter_id =
     (map_of (iter_to_attached_stages (attach_map state)) (stage_id, iter_id) \<noteq> None)"

text \<open>The enumeration of the locations in the target stage: the iterators still to
  visit, the index of the first of them, the flag \<^verbatim>\<open>visited_reduce\<close> and the candidates
  so far.\<close>

fun target_candidates ::
  "Env \<Rightarrow> State \<Rightarrow> int \<Rightarrow> bool \<Rightarrow> bool \<Rightarrow> string set \<Rightarrow> Iterator list \<Rightarrow> nat \<Rightarrow> bool
     \<Rightarrow> (int \<times> int) list \<Rightarrow> (int \<times> int) list" where
  "target_candidates E state target_id target_compute_at_other target_is_tiled names [] i
     visited_reduce candidates = candidates"
| "target_candidates E state target_id target_compute_at_other target_is_tiled names
     (target_iter # rest) i visited_reduce candidates =
     (let visited_reduce' = (visited_reduce \<or> iter_kind target_iter = kReduction)
      in if iter_kind target_iter = kReduction \<and> \<not> target_is_tiled then candidates
         else if iter_kind target_iter \<noteq> kReduction \<and> iter_kind target_iter = kSpatial \<and>
                 visited_reduce then candidates
         else if name target_iter \<in> names then candidates
         else if GetExtent (utils E) target_iter = 1 then
           target_candidates E state target_id target_compute_at_other target_is_tiled names
             rest (Suc i) visited_reduce' candidates
         else if target_compute_at_other \<and> iter_kind target_iter = kSpatial \<and>
                 StrEndsWith (utils E) (name target_iter) ''.0'' then
           target_candidates E state target_id target_compute_at_other target_is_tiled names
             rest (Suc i) visited_reduce' candidates
         else if has_attached state target_id (int i) then candidates @ [(target_id, int i)]
         else
           target_candidates E state target_id target_compute_at_other target_is_tiled names
             rest (Suc i) visited_reduce' (candidates @ [(target_id, int i)]))"

text \<open>The same for the stage that the target stage is attached to.\<close>

fun target_target_candidates ::
  "Env \<Rightarrow> State \<Rightarrow> int \<Rightarrow> string set \<Rightarrow> Iterator list \<Rightarrow> nat \<Rightarrow> (int \<times> int) list
     \<Rightarrow> (int \<times> int) list" where
  "target_target_candidates E state target_target_id names [] i candidates = candidates"
| "target_target_candidates E state target_target_id names (target_target_iter # rest) i
     candidates =
     (if iter_kind target_target_iter = kReduction \<or>
         has_attached state target_target_id (int i) then candidates
      else if name target_target_iter \<in> names then candidates
      else if GetExtent (utils E) target_target_iter = 1 then
        target_target_candidates E state target_target_id names rest (Suc i) candidates
      else
        target_target_candidates E state target_target_id names rest (Suc i)
          (candidates @ [(target_target_id, int i)]))"

definition location_candidates ::
  "Env \<Rightarrow> State \<Rightarrow> int \<Rightarrow> Stage \<Rightarrow> error + (int \<times> int) list" where
  "location_candidates E state target_id target_stage =
     (let target_compute_at_other = (compute_at target_stage = kIter);
          target_is_tiled = IsTiled (utils E) target_stage;
          candidates = target_candidates E state target_id target_compute_at_other
                         target_is_tiled (unroll_names E target_stage) (iters target_stage) 0
                         False []
      in if target_compute_at_other then
           (case map_of (stage_to_attach_iter (attach_map state)) target_id of
              None \<Rightarrow> Inl KeyError
            | Some attach \<Rightarrow>
                (case at_index (stages state) (fst attach) of
                   Inl e \<Rightarrow> Inl e
                 | Inr target_target_stage \<Rightarrow>
                     Inr (target_target_candidates E state (fst attach)
                            (unroll_names E target_target_stage) (iters target_target_stage) 0
                            candidates)))
         else Inr candidates)"

text \<open>The body of the loop over the stages, for one stage.\<close>

definition change_location_stage ::
  "Env \<Rightarrow> Policy \<Rightarrow> State \<Rightarrow> int \<Rightarrow> error + State \<times> Policy" where
  "change_location_stage E policy state stage_id =
     (case at_index (stages state) stage_id of
        Inl e \<Rightarrow> Inl e
      | Inr stage \<Rightarrow>
          if op_type stage = kPlaceholder \<or> compute_at stage = kInlined then Inr (state, policy)
          else if IsTiled (utils E) stage \<or> NeedsMultilevelTiling (utils E) state stage_id
          then Inr (state, policy)
          else
            (let target_id = GetSingleConsumerId (utils E) state stage_id
             in if target_id < 0 then Inr (state, policy)
                else
                  (case at_index (stages state) target_id of
                     Inl e \<Rightarrow> Inl e
                   | Inr target_stage \<Rightarrow>
                       (case location_candidates E state target_id target_stage of
                          Inl e \<Rightarrow> Inl e
                        | Inr candidates \<Rightarrow>
                            (let r = rand_next (rand_gen policy);
                                 choice = fst r mod (length candidates + 2);
                                 policy' = policy\<lparr>rand_gen := snd r\<rparr>
                             in if choice = 0 then
                                  (if \<not> HasReduceIter (utils E) stage \<and>
                                      map_of (stage_to_attach_iter (attach_map state)) stage_id
                                        \<noteq> None
                                   then Inr (compute_inline (transforms E) state stage_id,
                                             policy')
                                   else Inr (state, policy'))
                                else if choice = 1 then
                                  Inr (compute_root (transforms E) state stage_id, policy')
                                else
                                  (let c = candidates ! (choice - 2)
                                   in case at_index (stages state) (fst c) of
                                        Inl e \<Rightarrow> Inl e
                                      | Inr cstage \<Rightarrow>
                                          (case at_index (iters cstage) (snd c) of
                                             Inl e \<Rightarrow> Inl e
                                           | Inr it \<Rightarrow>
                                               Inr (compute_at_iter (transforms E) state
                                                      stage_id (fst c) it, policy'))))))))"

text \<open>The loop runs from the last stage of the state it starts with down to stage 0; the
  argument is the number of stages still to visit.\<close>

fun change_location_loop ::
  "Env \<Rightarrow> nat \<Rightarrow> Policy \<Rightarrow> State \<Rightarrow> error + State \<times> Policy" where
  "change_location_loop E 0 policy state = Inr (state, policy)"
| "change_location_loop E (Suc n) policy state =
     (case change_location_stage E policy state (int n) of
        Inl e \<Rightarrow> Inl e
      | Inr (state', policy') \<Rightarrow> change_location_loop E n policy' state')"

definition InitChangeComputeLocation_Apply ::
  "Env \<Rightarrow> Policy \<Rightarrow> State \<Rightarrow> error + ResultKind \<times> State \<times> Policy" where
  "InitChangeComputeLocation_Apply E policy state =
     (if disable_change_compute_location (params policy) \<noteq> 0 then Inr (kValid, state, policy)
      else
        (case change_location_loop E (length (stages state)) policy state of
           Inl e \<Rightarrow> Inl e
         | Inr (state', policy') \<Rightarrow>
             Inr (kValid, InferBound (transforms E) state', policy')))"

subsection \<open>InitParallel\<close>

text \<open>The scan of \<^verbatim>\<open>annotate_parallel\<close> over the iterators from \<^verbatim>\<open>iter_offset\<close>: the
  iterators to fuse, the parallel degree and the value of \<^verbatim>\<open>iter_id\<close> when the loop is
  left.\<close>

function parallel_scan ::
  "Env \<Rightarrow> Policy \<Rightarrow> State \<Rightarrow> int \<Rightarrow> Iterator list \<Rightarrow> nat \<Rightarrow> Iterator list \<Rightarrow> int
     \<Rightarrow> Iterator list \<times> int \<times> nat" where
  "parallel_scan E policy state stage_id its iter_id to_fuse parallel_degree =
     (if iter_id < length its then
        (let it = its ! iter_id
         in if iter_kind it = kReduction \<or> annotation it \<noteq> kNone
            then (to_fuse, parallel_degree, iter_id)
            else
              (let to_fuse' = to_fuse @ [it];
                   parallel_degree' = parallel_degree * GetExtent (utils E) it
               in if parallel_degree' > num_cores (search_task policy) * 16
                  then (to_fuse', parallel_degree', iter_id)
                  else if has_attached state stage_id (int iter_id)
                  then (to_fuse', parallel_degree', iter_id)
                  else parallel_scan E policy state stage_id its (Suc iter_id) to_fuse'
                         parallel_degree'))
      else (to_fuse, parallel_degree, iter_id))"
  by pat_completeness auto
termination
  by (relation "measure (\<lambda>(E, policy, state, stage_id, its, iter_id, to_fuse, parallel_degree).
        length its - iter_id)") auto

declare parallel_scan.simps [simp del]

text \<open>The recursive lambda. It calls itself on the stages attached to the iterator where
  the scan stopped and on the rest of its own stage; an attach map with a cycle would keep
  it going, so it runs on fuel. The stage and the attached stages are read when the call
  starts, as the source does.\<close>

fun annotate_parallel :: "nat \<Rightarrow> Env \<Rightarrow> Policy \<Rightarrow> State \<Rightarrow> int \<Rightarrow> nat \<Rightarrow> error + State"
  and annotate_attached :: "nat \<Rightarrow> Env \<Rightarrow> Policy \<Rightarrow> State \<Rightarrow> int list \<Rightarrow> error + State" where
  "annotate_parallel 0 E policy state stage_id iter_offset = Inl OutOfFuel"
| "annotate_parallel (Suc fuel) E policy state stage_id iter_offset =
     (case at_index (stages state) stage_id of
        Inl e \<Rightarrow> Inl e
      | Inr stage \<Rightarrow>
          (let scan = parallel_scan E policy state stage_id (iters stage) iter_offset [] 1;
               to_fuse = fst scan;
               parallel_degree = fst (snd scan);
               iter_id = snd (snd scan)
           in case (if parallel_degree = 1 then
                      (case map_of (iter_to_attached_stages (attach_map state))
                              (stage_id, int iter_id) of
                         None \<Rightarrow> Inr state
                       | Some attached \<Rightarrow>
                           (case annotate_attached fuel E policy state attached of
                              Inl e \<Rightarrow> Inl e
                            | Inr state' \<Rightarrow>
                                annotate_parallel fuel E policy state' stage_id (Suc iter_id)))
                    else Inr state) of
                Inl e \<Rightarrow> Inl e
              | Inr state' \<Rightarrow>
                  if to_fuse \<noteq> [] then
                    (if length to_fuse = 1
                     then Inr (parallel (transforms E) state' stage_id (to_fuse ! 0))
                     else
                       (let fused = fuse (transforms E) state' stage_id to_fuse
                        in Inr (parallel (transforms E) (fst fused) stage_id (snd fused))))
                  else Inr state'))"
| "annotate_attached fuel E policy state [] = Inr state"
| "annotate_attached fuel E policy state (attached_stage_id # rest) =
     (case annotate_parallel fuel E policy state attached_stage_id 0 of
        Inl e \<Rightarrow> Inl e
      | Inr state' \<Rightarrow> annotate_attached fuel E policy state' rest)"

text \<open>The loops over the stages of the last three rules test their bound against the
  state as it is after the changes so far; what the mutators do to the number of stages
  is not known here, so these loops run on fuel too.\<close>

fun parallel_stages ::
  "nat \<Rightarrow> Env \<Rightarrow> Policy \<Rightarrow> nat \<Rightarrow> State \<Rightarrow> error + State" where
  "parallel_stages 0 E policy stage_id state =
     (if stage_id < length (stages state) then Inl OutOfFuel else Inr state)"
| "parallel_stages (Suc fuel) E policy stage_id state =
     (if stage_id < length (stages state) then
        (let stage = stages state ! stage_id
         in if compute_at stage \<noteq> kRoot \<or> op_type stage = kPlaceholder
            then parallel_stages fuel E policy (Suc stage_id) state
            else
              (case annotate_parallel (Suc fuel) E policy state (int stage_id) 0 of
                 Inl e \<Rightarrow> Inl e
               | Inr state' \<Rightarrow> parallel_stages fuel E policy (Suc stage_id) state'))
      else Inr state)"

definition InitParallel_Apply ::
  "nat \<Rightarrow> Env \<Rightarrow> Policy \<Rightarrow> State \<Rightarrow> error + ResultKind \<times> State \<times> Policy" where
  "InitParallel_Apply fuel E policy state =
     (case parallel_stages fuel E policy 0 state of
        Inl e \<Rightarrow> Inl e
      | Inr state' \<Rightarrow> Inr (kValid, state', policy))"

subsection \<open>InitVectorization\<close>

text \<open>The \<^verbatim>\<open>while\<close> loop that counts the fusible iterators, from the innermost outwards,
  with the running product \<^verbatim>\<open>cum_length_prod\<close>. It is an \<^verbatim>\<open>int\<close>, and \<^verbatim>\<open>GetExtent\<close> returns
  an \<^verbatim>\<open>int64_t\<close>: the product is taken in 64 bits and narrowed when it is stored.\<close>

function count_fusible ::
  "Env \<Rightarrow> Policy \<Rightarrow> State \<Rightarrow> int \<Rightarrow> Stage \<Rightarrow> string set \<Rightarrow> nat \<Rightarrow> int \<Rightarrow> nat" where
  "count_fusible E policy state stage_id stage names num_fusible cum_length_prod =
     (if num_fusible < length (iters stage) then
        (let iter_id = length (iters stage) - 1 - num_fusible
         in if has_attached state stage_id (int iter_id) then num_fusible
            else
              (let it = iters stage ! iter_id
               in if iter_kind it = kReduction \<or> annotation it \<noteq> kNone \<or> name it \<in> names
                  then num_fusible
                  else if IsTiled (utils E) stage \<and> num_fusible \<noteq> 0 then num_fusible
                  else
                    (let cum_length_prod' =
                           narrow_int (cum_length_prod * GetExtent (utils E) it)
                     in if cum_length_prod' > max_vectorize_size (params policy)
                        then num_fusible
                        else count_fusible E policy state stage_id stage names
                               (Suc num_fusible) cum_length_prod')))
      else num_fusible)"
  by pat_completeness auto
termination
  by (relation "measure (\<lambda>(E, policy, state, stage_id, stage, names, num_fusible, c).
        length (iters stage) - num_fusible)") auto

declare count_fusible.simps [simp del]

definition vectorize_stage ::
  "Env \<Rightarrow> Policy \<Rightarrow> State \<Rightarrow> nat \<Rightarrow> State \<times> Policy" where
  "vectorize_stage E policy state stage_id =
     (let stage = stages state ! stage_id
      in if compute_at stage = kInlined \<or> op_type stage = kPlaceholder then (state, policy)
         else if HasAnnotatedIter (utils E) stage kTensorize then (state, policy)
         else
           (let counted = count_fusible E policy state (int stage_id) stage
                            (unroll_names E stage) 0 1;
                r = rand_next (rand_gen policy);
                num_fusible = (if counted > 1 then 1 + fst r mod (counted - 1) else counted);
                policy' = (if counted > 1 then policy\<lparr>rand_gen := snd r\<rparr> else policy)
            in if num_fusible = 1 then
                 (vectorize (transforms E) state (int stage_id) (last (iters stage)), policy')
               else if num_fusible > 1 then
                 (let to_fuse = drop (length (iters stage) - num_fusible) (iters stage);
                      fused = fuse (transforms E) state (int stage_id) to_fuse
                  in (vectorize (transforms E) (fst fused) (int stage_id) (snd fused), policy'))
               else (state, policy')))"

fun vectorize_stages ::
  "nat \<Rightarrow> Env \<Rightarrow> Policy \<Rightarrow> nat \<Rightarrow> State \<Rightarrow> error + State \<times> Policy" where
  "vectorize_stages 0 E policy stage_id state =
     (if stage_id < length (stages state) then Inl OutOfFuel else Inr (state, policy))"
| "vectorize_stages (Suc fuel) E policy stage_id state =
     (if stage_id < length (stages state) then
        (let r = vectorize_stage E policy state stage_id
         in vectorize_stages fuel E (snd r) (Suc stage_id) (fst r))
      else Inr (state, policy))"

definition InitVectorization_Apply ::
  "nat \<Rightarrow> Env \<Rightarrow> Policy \<Rightarrow> State \<Rightarrow> error + ResultKind \<times> State \<times> Policy" where
  "InitVectorization_Apply fuel E policy state =
     (case vectorize_stages fuel E policy 0 state of
        Inl e \<Rightarrow> Inl e
      | Inr (state', policy') \<Rightarrow> Inr (kValid, state', policy'))"

subsection \<open>InitUnroll\<close>

definition auto_unroll_configs :: "nat list" where
  "auto_unroll_configs = [0, 16, 64, 512]"

function to_string :: "nat \<Rightarrow> string" where
  "to_string n =
     (if n < 10 then [''0123456789'' ! n]
      else to_string (n div 10) @ [''0123456789'' ! (n mod 10)])"
  by pat_completeness auto
termination
  by (relation "measure (\<lambda>n. n)") auto

declare to_string.simps [simp del]

text \<open>The loop for \<^verbatim>\<open>always_unroll_inner\<close>, from the innermost iterator outwards: it stops
  at the first iterator whose original iterators were all visited. The set \<^verbatim>\<open>name\<close> has
  one element, and that element is in the set of the attribute, exactly when it has one
  element and is a subset of it.\<close>

fun unroll_inner ::
  "Env \<Rightarrow> int \<Rightarrow> string set \<Rightarrow> Iterator list \<Rightarrow> string set \<Rightarrow> State \<Rightarrow> State" where
  "unroll_inner E stage_id names [] visited_names state = state"
| "unroll_inner E stage_id names (it # rest) visited_names state =
     (let visited_names' = ExtractOriginalIterators (utils E) (name it) visited_names
      in if card visited_names = card visited_names' then state
         else
           (let orig = ExtractOriginalIterators (utils E) (name it) {}
            in unroll_inner E stage_id names rest visited_names'
                 (if card orig = 1 \<and> orig \<subseteq> names \<and> annotation it = kNone
                  then unroll (transforms E) state stage_id it else state)))"

fun unroll_named :: "Env \<Rightarrow> int \<Rightarrow> string set \<Rightarrow> Iterator list \<Rightarrow> State \<Rightarrow> State" where
  "unroll_named E stage_id names [] state = state"
| "unroll_named E stage_id names (it # rest) state =
     unroll_named E stage_id names rest
       (if name it \<in> names then unroll (transforms E) state stage_id it else state)"

definition unroll_stage ::
  "Env \<Rightarrow> Policy \<Rightarrow> State \<Rightarrow> nat \<Rightarrow> error + State \<times> Policy" where
  "unroll_stage E policy state stage_id =
     (let stage = stages state ! stage_id
      in if compute_at stage = kInlined \<or> op_type stage = kPlaceholder then Inr (state, policy)
         else
           (let state1 =
                  (if attrs_count stage always_unroll_inner then
                     unroll_inner E (int stage_id)
                       (GetIterNameSetParam (utils E) (attrs (op stage)) always_unroll_inner)
                       (rev (iters stage)) {} state
                   else state);
                state2 =
                  (if attrs_count stage always_unroll then
                     unroll_named E (int stage_id)
                       (GetIterNameSetParam (utils E) (attrs (op stage)) always_unroll)
                       (rev (iters stage)) state1
                   else state1);
                annotate_auto_unroll = HasReduceIter (utils E) stage
            in if annotate_auto_unroll then
                 (let r = rand_next (rand_gen policy);
                      val = auto_unroll_configs ! (fst r mod length auto_unroll_configs)
                  in case at_index (stages state2) (int stage_id) of
                       Inl e \<Rightarrow> Inl e
                     | Inr stage2 \<Rightarrow>
                         (case at_index (iters stage2) 0 of
                            Inl e \<Rightarrow> Inl e
                          | Inr it0 \<Rightarrow>
                              Inr (pragma (transforms E) state2 (int stage_id) it0
                                     (''auto_unroll_max_step'' @ ''$'' @ to_string val),
                                   policy\<lparr>rand_gen := snd r\<rparr>)))
               else Inr (state2, policy)))"

fun unroll_stages ::
  "nat \<Rightarrow> Env \<Rightarrow> Policy \<Rightarrow> nat \<Rightarrow> State \<Rightarrow> error + State \<times> Policy" where
  "unroll_stages 0 E policy stage_id state =
     (if stage_id < length (stages state) then Inl OutOfFuel else Inr (state, policy))"
| "unroll_stages (Suc fuel) E policy stage_id state =
     (if stage_id < length (stages state) then
        (case unroll_stage E policy state stage_id of
           Inl e \<Rightarrow> Inl e
         | Inr (state', policy') \<Rightarrow> unroll_stages fuel E policy' (Suc stage_id) state')
      else Inr (state, policy))"

definition InitUnroll_Apply ::
  "nat \<Rightarrow> Env \<Rightarrow> Policy \<Rightarrow> State \<Rightarrow> error + ResultKind \<times> State \<times> Policy" where
  "InitUnroll_Apply fuel E policy state =
     (case unroll_stages fuel E policy 0 state of
        Inl e \<Rightarrow> Inl e
      | Inr (state', policy') \<Rightarrow> Inr (kValid, state', policy'))"

text \<open>The virtual method \<^verbatim>\<open>Apply\<close> of the init rules, by rule.\<close>

fun InitRule_Apply ::
  "nat \<Rightarrow> Env \<Rightarrow> InitRule \<Rightarrow> Policy \<Rightarrow> State \<Rightarrow> error + ResultKind \<times> State \<times> Policy" where
  "InitRule_Apply fuel E InitFillTileSize policy state = InitFillTileSize_Apply E policy state"
| "InitRule_Apply fuel E InitChangeComputeLocation policy state =
     InitChangeComputeLocation_Apply E policy state"
| "InitRule_Apply fuel E InitParallel policy state = InitParallel_Apply fuel E policy state"
| "InitRule_Apply fuel E InitVectorization policy state =
     InitVectorization_Apply fuel E policy state"
| "InitRule_Apply fuel E InitUnroll policy state = InitUnroll_Apply fuel E policy state"

section \<open>The search policy\<close>

subsection \<open>SampleInitPopulation\<close>

text \<open>The loop over the init rules for one sample: whether the sample is valid, the
  state and the policy after it. It stops at the first rule that answers \<^verbatim>\<open>kInvalid\<close>.\<close>

fun apply_init_rules ::
  "nat \<Rightarrow> Env \<Rightarrow> InitRule list \<Rightarrow> Policy \<Rightarrow> State \<Rightarrow> error + bool \<times> State \<times> Policy" where
  "apply_init_rules fuel E [] policy tmp_s = Inr (True, tmp_s, policy)"
| "apply_init_rules fuel E (rule # rules) policy tmp_s =
     (case InitRule_Apply fuel E rule policy tmp_s of
        Inl e \<Rightarrow> Inl e
      | Inr (kind, tmp_s', policy') \<Rightarrow>
          if kind = kInvalid then Inr (False, tmp_s', policy')
          else apply_init_rules fuel E rules policy' tmp_s')"

text \<open>The sampling loop, with its two counters. The remainder by the number of sketches
  is a division by zero when there is no sketch.\<close>

function sample_loop ::
  "nat \<Rightarrow> Env \<Rightarrow> State list \<Rightarrow> int \<Rightarrow> Policy \<Rightarrow> State list \<Rightarrow> int
     \<Rightarrow> error + State list \<times> int \<times> Policy" where
  "sample_loop fuel E sketches out_size policy out_states fail_ct =
     (if int (length out_states) < out_size \<and> fail_ct < out_size then
        (if sketches = [] then Inl DivideByZero
         else
           (let r = rand_next (rand_gen policy);
                tmp_s = sketches ! (fst r mod length sketches)
            in case apply_init_rules fuel E (init_rules policy) (policy\<lparr>rand_gen := snd r\<rparr>)
                      tmp_s of
                 Inl e \<Rightarrow> Inl e
               | Inr (valid, tmp_s', policy') \<Rightarrow>
                   if valid then
                     sample_loop fuel E sketches out_size policy' (out_states @ [tmp_s']) fail_ct
                   else sample_loop fuel E sketches out_size policy' out_states (fail_ct + 1)))
      else Inr (out_states, fail_ct, policy))"
  by pat_completeness auto
termination
  by (relation "measure (\<lambda>(fuel, E, sketches, out_size, policy, out_states, fail_ct).
        nat (out_size - int (length out_states)) + nat (out_size - fail_ct))") auto

declare sample_loop.simps [simp del]

definition SampleInitPopulation ::
  "nat \<Rightarrow> Env \<Rightarrow> Policy \<Rightarrow> State list \<Rightarrow> int \<Rightarrow> error + State list \<times> Policy" where
  "SampleInitPopulation fuel E policy sketches out_size =
     (case sample_loop fuel E sketches out_size policy [] 0 of
        Inl e \<Rightarrow> Inl e
      | Inr (out_states, fail_ct, policy') \<Rightarrow> Inr (out_states, policy'))"

subsection \<open>EvolutionarySearch and SearchOneRound\<close>

text \<open>The body of \<^verbatim>\<open>EvolutionarySearch\<close> was deleted from the source; what is left declares
  \<^verbatim>\<open>best_states\<close>, prints its size and returns it.\<close>

definition EvolutionarySearch :: "Env \<Rightarrow> Policy \<Rightarrow> State list \<Rightarrow> int \<Rightarrow> State list" where
  "EvolutionarySearch E policy init_populations out_size = []"

text \<open>The loop that adds already measured states to the population.\<close>

fun add_measured ::
  "State list \<Rightarrow> int list \<Rightarrow> nat list \<Rightarrow> State list \<Rightarrow> error + State list" where
  "add_measured measured indices [] init_populations = Inr init_populations"
| "add_measured measured indices (i # rest) init_populations =
     (case at_index indices (int i) of
        Inl e \<Rightarrow> Inl e
      | Inr idx \<Rightarrow>
          (case at_index measured idx of
             Inl e \<Rightarrow> Inl e
           | Inr state \<Rightarrow> add_measured measured indices rest (init_populations @ [state])))"

text \<open>\<open>SearchOneRound\<close> returns the best states and, next to them, what it leaves in
  \<^verbatim>\<open>*random_states\<close> (a caller that passes no pointer drops it).\<close>

definition SearchOneRound ::
  "nat \<Rightarrow> Env \<Rightarrow> Policy \<Rightarrow> int \<Rightarrow> error + State list \<times> State list \<times> Policy" where
  "SearchOneRound fuel E policy num_random_states =
     (let pop = population (params policy);
          num_use_measured = min (int (length (measured_states_vector policy)))
                               (use_measured_ratio_times (params policy) pop);
          is_cost_model_reasonable = (\<not> is_random_model (schedule_cost_model policy))
      in case GenerateSketches fuel E policy of
           Inl e \<Rightarrow> Inl e
         | Inr (sketches, policy1) \<Rightarrow>
             (case SampleInitPopulation fuel E policy1 sketches
                     (if is_cost_model_reasonable then pop - num_use_measured else pop) of
                Inl e \<Rightarrow> Inl e
              | Inr (init_populations, policy2) \<Rightarrow>
                  if is_cost_model_reasonable then
                    (let indices = Argsort (collab E) (measured_states_throughputs policy2)
                     in case add_measured (measured_states_vector policy2) indices
                               [0..<nat num_use_measured] init_populations of
                          Inl e \<Rightarrow> Inl e
                        | Inr init_populations' \<Rightarrow>
                            (let best_states = EvolutionarySearch E policy2 init_populations'
                                                 (num_measure_per_iter policy2 * 2);
                                 sampled = RandomSampleStates (collab E) init_populations'
                                             (rand_gen policy2) (num_random_states * 10)
                             in Inr (best_states, fst sampled,
                                     policy2\<lparr>rand_gen := snd sampled\<rparr>)))
                  else
                    (let sampled = RandomSampleStates (collab E) init_populations
                                     (rand_gen policy2) (num_measure_per_iter policy2 * 3)
                     in Inr (fst sampled, [], policy2\<lparr>rand_gen := snd sampled\<rparr>))))"

subsection \<open>Search\<close>

text \<open>The measuring loop of \<^verbatim>\<open>Search\<close>. Its state is the policy, the collaborators, the
  last inputs and results, and the count \<^verbatim>\<open>ct\<close>. It returns an abort or the policy, and in
  both cases what happened to the collaborators until then.\<close>

function search_loop ::
  "nat \<Rightarrow> Env \<Rightarrow> int \<Rightarrow> int \<Rightarrow> int \<Rightarrow> Policy \<Rightarrow> Collaborators \<Rightarrow> State list
     \<Rightarrow> MeasureResult list \<Rightarrow> int \<Rightarrow> (error + Policy) \<times> Collaborators" where
  "search_loop fuel E n_trials early_stopping num_random policy W inputs results ct =
     (if ct < n_trials then
        (let W1 = (if inputs \<noteq> [] then
                     W\<lparr>cost_model_updates := cost_model_updates W @ [(inputs, results)]\<rparr>
                   else W);
             W2 = W1\<lparr>rounds := rounds W1 @ [num_random]\<rparr>
         in case SearchOneRound fuel E policy num_random of
              Inl e \<Rightarrow> (Inl e, W2)
            | Inr (best_states0, random_states0, policy1) \<Rightarrow>
                (let best_states = map (InferBound (transforms E)) best_states0;
                     random_states = map (InferBound (transforms E)) random_states0;
                     picked = PickStatesWithEpsGreedy E policy1 best_states random_states
                                (n_trials - ct);
                     inputs' = fst picked;
                     policy2 = snd picked
                 in if inputs' = [] then (Inr policy2, W2)
                    else
                      (let results' = measure_results (collab E) (measurer W2) inputs';
                           W3 = W2\<lparr>measurer := measurer W2 @ [Measure inputs']\<rparr>;
                           ct' = ct + int (length inputs')
                       in if ct' - best_ct (collab E) (measurer W3) > early_stopping
                          then (Inr policy2, W3)
                          else
                            search_loop fuel E n_trials early_stopping num_random
                              (policy2\<lparr>measured_states_throughputs :=
                                  measured_states_throughputs policy2 @
                                  map (\<lambda>res. 1 / FloatArrayMean (collab E) (costs res))
                                    results'\<rparr>)
                              W3 inputs' results' ct')))
      else (Inr policy, W))"
  by pat_completeness auto
termination
  by (relation "measure (\<lambda>(fuel, E, n_trials, early_stopping, num_random, policy, W, inputs,
        results, ct). nat (n_trials - ct))") auto

declare search_loop.simps [simp del]

definition Search ::
  "nat \<Rightarrow> Env \<Rightarrow> Policy \<Rightarrow> int \<Rightarrow> int \<Rightarrow> int \<Rightarrow> Collaborators
     \<Rightarrow> (error + State \<times> Policy) \<times> Collaborators" where
  "Search fuel E policy0 n_trials early_stopping num_measure_per_iter_arg W =
     (let policy = policy0\<lparr>num_measure_per_iter := num_measure_per_iter_arg\<rparr>
      in if n_trials \<le> 1 then
           (case SearchOneRound fuel E policy 0 of
              Inl e \<Rightarrow> (Inl e, W\<lparr>rounds := rounds W @ [0]\<rparr>)
            | Inr (best_states, random_states, policy1) \<Rightarrow>
                if \<not> int (length best_states) > 0
                then (Inl CheckFailed, W\<lparr>rounds := rounds W @ [0]\<rparr>)
                else (Inr (best_states ! 0, policy1), W\<lparr>rounds := rounds W @ [0]\<rparr>))
         else
           (let num_random = eps_greedy_times (params policy) num_measure_per_iter_arg;
                W1 = W\<lparr>measurer := measurer W @ [Reset]\<rparr>;
                early_stopping' = (if early_stopping < 0 then 2147483647 div 2
                                   else early_stopping)
            in case search_loop fuel E n_trials early_stopping' num_random policy W1 [] [] 0 of
                 (Inl e, W2) \<Rightarrow> (Inl e, W2)
               | (Inr policy1, W2) \<Rightarrow>
                   (Inr (best_state (collab E) (measurer W2), policy1), W2)))"

section \<open>Example data\<close>

text \<open>
  A small instance of everything the policy is given, on which the definitions above can
  be run: helpers that read the stages, mutators that only append their step to the
  history, a measurer that answers a constant cost, and a random generator whose outputs
  are 0, 1, 2, ... The theorems below hold for every instance; this one shows that their
  hypotheses can be met.
\<close>

fun step_char :: "Step \<Rightarrow> char" where
  "step_char (SplitStep stage_id iter_id extent lengths inner_to_outer) = CHR ''S''"
| "step_char (FuseStep stage_id args) = CHR ''F''"
| "step_char (ReorderStep stage_id args) = CHR ''O''"
| "step_char (ComputeAtStep stage_id args) = CHR ''A''"
| "step_char (ComputeInlineStep stage_id) = CHR ''I''"
| "step_char (ComputeRootStep stage_id) = CHR ''R''"
| "step_char (CacheReadStep stage_id args) = CHR ''r''"
| "step_char (CacheWriteStep stage_id args) = CHR ''w''"
| "step_char (RfactorStep stage_id args) = CHR ''f''"
| "step_char (ParallelStep stage_id args) = CHR ''P''"
| "step_char (VectorizeStep stage_id args) = CHR ''V''"
| "step_char (UnrollStep stage_id args) = CHR ''U''"
| "step_char (PragmaStep stage_id args text) = CHR ''p''"
| "step_char (TensorizeStep stage_id args text) = CHR ''T''"

definition add_step :: "State \<Rightarrow> Step \<Rightarrow> State" where
  "add_step state step = state\<lparr>transform_steps := transform_steps state @ [step]\<rparr>"

definition example_utils :: Utils where
  "example_utils =
     \<lparr>IsOutputOp = (\<lambda>state stage_id. stage_id = int (length (stages state)) - 1),
      HasReduceIter = (\<lambda>stage. list_ex (\<lambda>it. iter_kind it = kReduction) (iters stage)),
      HasAttrsFlag = (\<lambda>state stage_id flag.
         case at_index (stages state) stage_id of
           Inl e \<Rightarrow> False
         | Inr stage \<Rightarrow> map_of (attrs (op stage)) flag \<noteq> None),
      IsStrictInlineable = (\<lambda>state stage_id. False),
      NeedsMultilevelTiling = (\<lambda>state stage_id.
         case at_index (stages state) stage_id of
           Inl e \<Rightarrow> False
         | Inr stage \<Rightarrow> list_ex (\<lambda>it. iter_kind it = kReduction) (iters stage)),
      HasSingleElementwiseMatchedConsumer = (\<lambda>state stage_id. False),
      matched_consumer_target = (\<lambda>state stage_id target. stage_id + 1),
      HasCacheWriteStage = (\<lambda>state stage_id. False),
      HasFuseFactorableReduction = (\<lambda>state stage_id. True),
      IsTiled = (\<lambda>stage. False),
      GetSingleConsumerId = (\<lambda>state stage_id. - 1),
      GetExtent = (\<lambda>it. case range_extent it of None \<Rightarrow> - 1 | Some e \<Rightarrow> e),
      StrEndsWith = (\<lambda>str suffix. length suffix \<le> length str \<and>
                       drop (length str - length suffix) str = suffix),
      HasAnnotatedIter = (\<lambda>stage ann. list_ex (\<lambda>it. annotation it = ann) (iters stage)),
      GetIterNameSetParam = (\<lambda>attributes key. {}),
      ExtractOriginalIterators = (\<lambda>iter_name names. insert iter_name names),
      ToStr = (\<lambda>state. map step_char (transform_steps state))\<rparr>"

definition example_transforms :: Transforms where
  "example_transforms =
     \<lparr>DoMultiLevelTiling = (\<lambda>state stage_id structure.
         (add_step state (SplitStep stage_id 0 (Some 16) [None, None] True),
          [int (length (transform_steps state))])),
      FollowTiling = (\<lambda>state stage_id split_step_ids level.
         add_step state (SplitStep stage_id 0 (Some 16) (replicate (nat level) None) True)),
      FuseAllReductionIterators = (\<lambda>state stage_id.
         (add_step state (FuseStep stage_id [1]),
          \<lparr>name = ''k'', range_extent = Some 16, iter_kind = kReduction, annotation = kNone\<rparr>,
          [\<lparr>name = ''i'', range_extent = Some 16, iter_kind = kSpatial, annotation = kNone\<rparr>],
          [\<lparr>name = ''k'', range_extent = Some 16, iter_kind = kReduction,
            annotation = kNone\<rparr>])),
      compute_inline = (\<lambda>state stage_id. add_step state (ComputeInlineStep stage_id)),
      compute_at_iter = (\<lambda>state stage_id target_stage_id it.
         add_step state (ComputeAtStep stage_id [target_stage_id])),
      compute_root = (\<lambda>state stage_id. add_step state (ComputeRootStep stage_id)),
      cache_write = (\<lambda>state stage_id scope.
         (add_step state (CacheWriteStep stage_id []), stage_id)),
      split_iter = (\<lambda>state stage_id it lengths.
         (add_step state (SplitStep stage_id 1 (range_extent it) lengths True),
          [it\<lparr>name := name it @ ''.0''\<rparr>, it\<lparr>name := name it @ ''.1''\<rparr>])),
      rfactor = (\<lambda>state stage_id it factor_axis_id.
         (add_step state (RfactorStep stage_id [factor_axis_id]), stage_id)),
      reorder = (\<lambda>state stage_id order. add_step state (ReorderStep stage_id [])),
      fuse = (\<lambda>state stage_id to_fuse.
         (add_step state (FuseStep stage_id []), hd to_fuse)),
      parallel = (\<lambda>state stage_id it. add_step state (ParallelStep stage_id [])),
      vectorize = (\<lambda>state stage_id it. add_step state (VectorizeStep stage_id [])),
      unroll = (\<lambda>state stage_id it. add_step state (UnrollStep stage_id [])),
      pragma = (\<lambda>state stage_id it text. add_step state (PragmaStep stage_id [] text)),
      InferBound = (\<lambda>state. state)\<rparr>"

definition example_collab :: Collab where
  "example_collab =
     \<lparr>measure_results = (\<lambda>history inputs. map (\<lambda>state. \<lparr>costs = [1]\<rparr>) inputs),
      best_ct = (\<lambda>history. 0),
      best_state = (\<lambda>history. \<lparr>stages = [], transform_steps = [],
         attach_map = \<lparr>stage_to_attach_iter = [], iter_to_attached_stages = []\<rparr>,
         concrete = True\<rparr>),
      FloatArrayMean = (\<lambda>costs. 1),
      Argsort = (\<lambda>values. map int [0..<length values]),
      RandomSampleStates = (\<lambda>states rng n. (take (nat n) states, rng))\<rparr>"

definition example_env :: Env where
  "example_env =
     \<lparr>utils = example_utils, transforms = example_transforms, collab = example_collab\<rparr>"

definition example_params :: Params where
  "example_params =
     \<lparr>eps_greedy_times = (\<lambda>n. n div 2),
      use_measured_ratio_times = (\<lambda>n. n div 5),
      population = 2,
      max_innermost_split_factor = 64,
      max_vectorize_size = 16,
      disable_change_compute_location = 0,
      cpu_structure = ''SSRSRS''\<rparr>"

definition placeholder_stage :: Stage where
  "placeholder_stage =
     \<lparr>op = \<lparr>op_name = ''A'', attrs = []\<rparr>, op_type = kPlaceholder,
      iters = [\<lparr>name = ''i'', range_extent = Some 16, iter_kind = kSpatial,
               annotation = kNone\<rparr>],
      compute_at = kRoot\<rparr>"

definition reduce_stage :: Stage where
  "reduce_stage =
     \<lparr>op = \<lparr>op_name = ''C'', attrs = [(no_cache_write, '''')]\<rparr>, op_type = kCompute,
      iters = [\<lparr>name = ''i'', range_extent = Some 16, iter_kind = kSpatial,
               annotation = kNone\<rparr>,
              \<lparr>name = ''k'', range_extent = Some 16, iter_kind = kReduction,
               annotation = kNone\<rparr>],
      compute_at = kRoot\<rparr>"

definition example_state :: "Stage list \<Rightarrow> Step list \<Rightarrow> State" where
  "example_state stage_list steps =
     \<lparr>stages = stage_list, transform_steps = steps,
      attach_map = \<lparr>stage_to_attach_iter = [], iter_to_attached_stages = []\<rparr>,
      concrete = False\<rparr>"

definition example_policy :: "State \<Rightarrow> bool \<Rightarrow> Policy" where
  "example_policy init random_model =
     \<lparr>search_task = \<lparr>init_state = init, num_cores = 4\<rparr>,
      schedule_cost_model = \<lparr>is_random_model = random_model\<rparr>,
      params = example_params,
      rand_gen = (\<lambda>i. i),
      sketch_rules = [RuleAlwaysInline, RuleAddRfactor, RuleAddCacheWrite,
                      RuleMultiLevelTilingWithFusion, RuleMultiLevelTiling, RuleSkipStage],
      init_rules = [InitFillTileSize, InitChangeComputeLocation, InitParallel,
                    InitVectorization, InitUnroll],
      measured_states_set = {},
      measured_states_vector = [],
      measured_states_throughputs = [],
      num_measure_per_iter = 4,
      target_stage_id = 0\<rparr>"

definition tagged_stage :: Stage where
  "tagged_stage =
     \<lparr>op = \<lparr>op_name = ''B'', attrs = [(always_compute_inline, '''')]\<rparr>, op_type = kCompute,
      iters = [\<lparr>name = ''i'', range_extent = Some 16, iter_kind = kSpatial,
               annotation = kNone\<rparr>],
      compute_at = kRoot\<rparr>"

definition plain_stage :: Stage where
  "plain_stage =
     \<lparr>op = \<lparr>op_name = ''D'', attrs = []\<rparr>, op_type = kCompute,
      iters = [\<lparr>name = ''i'', range_extent = Some 4, iter_kind = kSpatial,
               annotation = kNone\<rparr>,
              \<lparr>name = ''j'', range_extent = Some 4, iter_kind = kSpatial,
               annotation = kNone\<rparr>],
      compute_at = kRoot\<rparr>"

definition wide_stage :: Stage where
  "wide_stage =
     \<lparr>op = \<lparr>op_name = ''E'', attrs = []\<rparr>, op_type = kCompute,
      iters = [\<lparr>name = ''i'', range_extent = Some 2, iter_kind = kSpatial,
               annotation = kNone\<rparr>,
              \<lparr>name = ''j'', range_extent = Some 268435456, iter_kind = kSpatial,
               annotation = kNone\<rparr>,
              \<lparr>name = ''k'', range_extent = Some 16, iter_kind = kSpatial,
               annotation = kNone\<rparr>],
      compute_at = kRoot\<rparr>"

definition attached_state :: State where
  "attached_state =
     \<lparr>stages = [plain_stage, tagged_stage], transform_steps = [],
      attach_map = \<lparr>stage_to_attach_iter = [(1, (0, 1))],
                    iter_to_attached_stages = [((0, 1), [1])]\<rparr>,
      concrete = False\<rparr>"

definition split_state :: State where
  "split_state =
     example_state [placeholder_stage, reduce_stage]
       [SplitStep 1 0 (Some 16) [None, None] True, FuseStep 1 [1],
        SplitStep 1 1 (Some 16) [Some 4] True, SplitStep 1 1 (Some 12) [None] False]"

text \<open>A state with a stage attached where the scan of \<^verbatim>\<open>annotate_parallel\<close> stops at
  once (the first iterator of stage 0 is a reduction iterator, and stage 1 is attached to
  it), with the invariant and the rank that fit it under the example mutators, which leave
  the stages and the attach map alone. And a state whose stage is attached to its own
  iterator.\<close>

definition inner_stage :: Stage where
  "inner_stage =
     \<lparr>op = \<lparr>op_name = ''F'', attrs = []\<rparr>, op_type = kCompute,
      iters = [\<lparr>name = ''k'', range_extent = Some 16, iter_kind = kReduction,
               annotation = kNone\<rparr>,
              \<lparr>name = ''i'', range_extent = Some 16, iter_kind = kSpatial,
               annotation = kNone\<rparr>],
      compute_at = kRoot\<rparr>"




definition cyclic_state :: State where
  "cyclic_state =
     \<lparr>stages = [inner_stage], transform_steps = [],
      attach_map = \<lparr>stage_to_attach_iter = [(0, (0, 0))],
                    iter_to_attached_stages = [((0, 0), [0])]\<rparr>,
      concrete = False\<rparr>"

definition no_calls :: Collaborators where
  "no_calls = \<lparr>measurer = [], cost_model_updates = [], rounds = []\<rparr>"

definition fusion_env :: Env where
  "fusion_env =
     example_env\<lparr>utils := example_utils\<lparr>HasSingleElementwiseMatchedConsumer :=
                                          (\<lambda>state stage_id. True)\<rparr>\<rparr>"

section \<open>Predicates of the properties\<close>

text \<open>The invariant of the picking loop, for the set \<open>M\<close> of the strings measured before
  the call: the strings of the inputs are pairwise distinct, none of them is in \<open>M\<close>, and
  the set of the policy is \<open>M\<close> with the strings of the inputs.\<close>

definition pick_inv :: "Utils \<Rightarrow> string set \<Rightarrow> State list \<times> Policy \<Rightarrow> bool" where
  "pick_inv U M ip =
     (distinct (map (ToStr U) (fst ip)) \<and>
      measured_states_set (snd ip) = M \<union> ToStr U ` set (fst ip) \<and>
      ToStr U ` set (fst ip) \<inter> M = {})"

text \<open>A split step whose lengths are the single undefined length, and the property of a
  history that such a step stands before every rfactor step (up to a position, and
  everywhere).\<close>

fun split_lengths_unset :: "Step \<Rightarrow> bool" where
  "split_lengths_unset (SplitStep stage_id iter_id extent lengths inner_to_outer) =
     (lengths = [None])"
| "split_lengths_unset step = False"

definition rfactor_splits_unset_upto :: "Step list \<Rightarrow> nat \<Rightarrow> bool" where
  "rfactor_splits_unset_upto steps n =
     (\<forall>i \<in> {..<n}. i < length steps \<longrightarrow> is_RfactorStep (steps ! i) \<longrightarrow>
        1 \<le> i \<and> split_lengths_unset (steps ! (i - 1)))"

definition rfactor_splits_unset :: "Step list \<Rightarrow> bool" where
  "rfactor_splits_unset steps = rfactor_splits_unset_upto steps (length steps)"

text \<open>The condition of the always-inline rule in the words of the specification: the op
  is strict-inlinable, is not an output, has no reduction iterator, and either carries the
  tag or the analyzer confirms strict inlinability.\<close>

definition claimed_AlwaysInline_condition :: "Env \<Rightarrow> State \<Rightarrow> int \<Rightarrow> Stage \<Rightarrow> bool" where
  "claimed_AlwaysInline_condition E state stage_id stage =
     (IsStrictInlineable (utils E) state stage_id \<and>
      \<not> IsOutputOp (utils E) state stage_id \<and>
      \<not> HasReduceIter (utils E) stage \<and>
      (HasAttrsFlag (utils E) state stage_id always_compute_inline \<or>
       IsStrictInlineable (utils E) state stage_id))"

text \<open>For the fusion rule: whether a tile level is spatial in the structure string,
  whether the lookups of the target stage and of its iterator succeed for a level, and the
  successor state of a level.\<close>

definition spatial_level :: "string \<Rightarrow> int \<Rightarrow> bool" where
  "spatial_level structure level =
     (0 \<le> level - 1 \<and> level - 1 < int (length structure) \<and>
      tolower (structure ! nat (level - 1)) = CHR ''s'')"

definition fusion_lookup_ok :: "Env \<Rightarrow> int \<Rightarrow> State \<Rightarrow> int list \<Rightarrow> int \<Rightarrow> bool" where
  "fusion_lookup_ok E target base_state split_step_ids level =
     (let tmp_s = FollowTiling (transforms E) base_state target split_step_ids level;
          i = level * int (length split_step_ids) - 1
      in 0 \<le> target \<and> target < int (length (stages tmp_s)) \<and>
         0 \<le> i \<and> i < int (length (iters (stages tmp_s ! nat target))))"

definition fusion_variant :: "Env \<Rightarrow> int \<Rightarrow> State \<Rightarrow> int list \<Rightarrow> int \<Rightarrow> int \<Rightarrow> State \<times> int" where
  "fusion_variant E target base_state split_step_ids stage_id level =
     (let tmp_s = FollowTiling (transforms E) base_state target split_step_ids level;
          target_iter = iters (stages tmp_s ! nat target)
                          ! nat (level * int (length split_step_ids) - 1)
      in (compute_at_iter (transforms E) tmp_s stage_id target target_iter, stage_id - 1))"

text \<open>For the rfactor rule: the two successor states, and whether the lookups of the
  reordering succeed.\<close>

definition rfactor_variant_plain ::
  "Env \<Rightarrow> State \<Rightarrow> Iterator list \<Rightarrow> nat \<Rightarrow> int \<Rightarrow> State \<times> int" where
  "rfactor_variant_plain E base_state split_res n_space stage_id =
     (let factored = rfactor (transforms E) base_state stage_id (split_res ! 0) (int n_space)
      in (fst factored, snd factored - 1))"

definition rfactor_variant_reordered ::
  "Env \<Rightarrow> State \<Rightarrow> Iterator list \<Rightarrow> nat \<Rightarrow> int \<Rightarrow> State \<times> int" where
  "rfactor_variant_reordered E base_state split_res n_space stage_id =
     (let factored = rfactor (transforms E) base_state stage_id (split_res ! 1) (int n_space);
          tmp_s = fst factored;
          rstage_id = snd factored;
          its = iters (stages tmp_s ! nat rstage_id)
      in (reorder (transforms E) tmp_s rstage_id
            (map (\<lambda>i. its ! i) (filter (\<lambda>i. i \<noteq> n_space) [0..<length its]) @ [its ! n_space]),
          rstage_id - 1))"

definition reorder_lookup_ok :: "Env \<Rightarrow> State \<Rightarrow> Iterator list \<Rightarrow> nat \<Rightarrow> int \<Rightarrow> bool" where
  "reorder_lookup_ok E base_state split_res n_space stage_id =
     (let factored = rfactor (transforms E) base_state stage_id (split_res ! 1) (int n_space);
          tmp_s = fst factored;
          rstage_id = snd factored
      in 0 \<le> rstage_id \<and> rstage_id < int (length (stages tmp_s)) \<and>
         n_space < length (iters (stages tmp_s ! nat rstage_id)))"

text \<open>An integer that an \<^verbatim>\<open>int\<close> holds.\<close>

definition fits_int :: "int \<Rightarrow> bool" where
  "fits_int x = (- 2147483648 \<le> x \<and> x < 2147483648)"

text \<open>For the tile sizes: a split step that still has an undefined length, a step whose
  lengths are all defined, a factorization of an extent by the \<open>n\<close> lengths of a scheme
  (all positive, the quotient left to the outermost iterator positive, their product with
  it the extent, the innermost at most the bound), the number of steps to fill between
  two positions, and what the rule makes of a step when \<open>r\<close> is the number it draws for
  it: the scheme at the index \<open>r\<close> among the schemes of the narrowed extent, which is a
  factorization of the narrowed extent, and of the extent itself when an \<^verbatim>\<open>int\<close> holds
  it.\<close>

fun needs_fill :: "Step \<Rightarrow> bool" where
  "needs_fill (SplitStep stage_id iter_id extent lengths inner_to_outer) =
     (\<not> all_defined lengths)"
| "needs_fill step = False"

fun split_lengths_defined :: "Step \<Rightarrow> bool" where
  "split_lengths_defined (SplitStep stage_id iter_id extent lengths inner_to_outer) =
     all_defined lengths"
| "split_lengths_defined step = True"

definition is_factorization :: "int \<Rightarrow> nat \<Rightarrow> int \<Rightarrow> int list \<Rightarrow> bool" where
  "is_factorization extent n max_innermost_factor lens =
     (length lens = n \<and> list_all (\<lambda>l. 0 < l) lens \<and>
      0 < extent div prod_list lens \<and>
      (extent div prod_list lens) * prod_list lens = extent \<and>
      (lens \<noteq> [] \<and> last lens \<le> max_innermost_factor))"

definition fills_between :: "Step list \<Rightarrow> nat \<Rightarrow> nat \<Rightarrow> nat" where
  "fills_between steps k i = length (filter needs_fill (take (i - k) (drop k steps)))"

definition tile_sizes_filled :: "int \<Rightarrow> nat \<Rightarrow> Step \<Rightarrow> Step \<Rightarrow> bool" where
  "tile_sizes_filled max_innermost_factor r step step' =
     (case step of
        SplitStep stage_id iter_id extent lengths inner_to_outer \<Rightarrow>
          if all_defined lengths then step' = step
          else
            (case extent of
               None \<Rightarrow> False
             | Some ext \<Rightarrow>
                 (let schemes = GetFactorizationSchemes (narrow_int ext) (length lengths)
                                  max_innermost_factor;
                      lens = schemes ! (r mod length schemes)
                  in schemes \<noteq> [] \<and>
                     step' = SplitStep stage_id iter_id extent (map Some lens) inner_to_outer \<and>
                     is_factorization (narrow_int ext) (length lengths) max_innermost_factor
                       lens \<and>
                     (fits_int ext \<longrightarrow>
                        is_factorization ext (length lengths) max_innermost_factor lens)))
      | _ \<Rightarrow> step' = step)"

text \<open>For the vectorization: the \<open>j\<close>-th iterator from the innermost, the product of the
  extents of the \<open>k\<close> innermost iterators, the same product as the \<^verbatim>\<open>int\<close>
  \<^verbatim>\<open>cum_length_prod\<close> holds it (narrowed at every step), the test that the walk makes at the
  \<open>j\<close>-th iterator from the innermost, and the number of iterators taken once the walk has
  counted them.\<close>

definition innermost :: "Stage \<Rightarrow> nat \<Rightarrow> Iterator" where
  "innermost stage j = iters stage ! (length (iters stage) - 1 - j)"

definition extent_product :: "Env \<Rightarrow> Stage \<Rightarrow> nat \<Rightarrow> int" where
  "extent_product E stage k =
     prod_list (map (\<lambda>j. GetExtent (utils E) (innermost stage j)) [0..<k])"

fun cum_extent :: "Env \<Rightarrow> Stage \<Rightarrow> nat \<Rightarrow> int" where
  "cum_extent E stage 0 = 1"
| "cum_extent E stage (Suc k) =
     narrow_int (cum_extent E stage k * GetExtent (utils E) (innermost stage k))"

definition fusible_at :: "Env \<Rightarrow> Policy \<Rightarrow> State \<Rightarrow> int \<Rightarrow> Stage \<Rightarrow> nat \<Rightarrow> bool" where
  "fusible_at E policy state stage_id stage j =
     (\<not> has_attached state stage_id (int (length (iters stage) - 1 - j)) \<and>
      iter_kind (innermost stage j) \<noteq> kReduction \<and>
      annotation (innermost stage j) = kNone \<and>
      name (innermost stage j) \<notin> unroll_names E stage \<and>
      \<not> (IsTiled (utils E) stage \<and> j \<noteq> 0) \<and>
      cum_extent E stage (Suc j) \<le> max_vectorize_size (params policy))"

definition chosen_fusible :: "Policy \<Rightarrow> nat \<Rightarrow> nat" where
  "chosen_fusible policy counted =
     (if counted > 1 then 1 + rand_gen policy 0 mod (counted - 1) else counted)"

text \<open>The count of fusible iterators in the words of the specification: from the
  innermost iterator outwards (the list is the iterators in that order), while the
  iterators are spatial and unannotated and the cumulative extent stays within
  \<^verbatim>\<open>max_vectorize_size\<close>.\<close>

fun claimed_count_fusible :: "Env \<Rightarrow> Policy \<Rightarrow> Iterator list \<Rightarrow> int \<Rightarrow> nat" where
  "claimed_count_fusible E policy [] cum_length_prod = 0"
| "claimed_count_fusible E policy (it # outer) cum_length_prod =
     (if iter_kind it = kSpatial \<and> annotation it = kNone \<and>
         cum_length_prod * GetExtent (utils E) it \<le> max_vectorize_size (params policy)
      then Suc (claimed_count_fusible E policy outer (cum_length_prod * GetExtent (utils E) it))
      else 0)"




definition ends_in :: "('a \<Rightarrow> State) \<Rightarrow> (State \<Rightarrow> bool) \<Rightarrow> error + 'a \<Rightarrow> bool" where
  "ends_in f good r = (case r of Inl e \<Rightarrow> e \<noteq> OutOfFuel | Inr x \<Rightarrow> good (f x))"

text \<open>A rule or a loop of the policy that returns a state and the policy keeps the set of
  measured states.\<close>

definition keeps_measured :: "Policy \<Rightarrow> error + State \<times> Policy \<Rightarrow> bool" where
  "keeps_measured policy r =
     (case r of
        Inl e \<Rightarrow> True
      | Inr sp \<Rightarrow> measured_states_set (snd sp) = measured_states_set policy)"

text \<open>The states the measurer was given, in order, read from its history; and what one run
  of the measuring loop of \<^verbatim>\<open>Search\<close> does to them: the history is only extended, the states
  added to it have pairwise distinct canonical strings, none of them in the set the policy had
  before, and the set of the returned policy is the old one with these strings added.\<close>

fun event_inputs :: "MeasureEvent \<Rightarrow> State list" where
  "event_inputs Reset = []"
| "event_inputs (Measure inputs) = inputs"

definition measured_inputs :: "ProgramMeasurer \<Rightarrow> State list" where
  "measured_inputs history = concat (map event_inputs history)"

definition search_measures_new ::
  "Utils \<Rightarrow> Policy \<Rightarrow> Collaborators \<Rightarrow> (error + Policy) \<times> Collaborators \<Rightarrow> bool" where
  "search_measures_new U policy W r =
     (take (length (measurer W)) (measurer (snd r)) = measurer W \<and>
      distinct (map (ToStr U)
                  (measured_inputs (drop (length (measurer W)) (measurer (snd r))))) \<and>
      ToStr U ` set (measured_inputs (drop (length (measurer W)) (measurer (snd r))))
        \<inter> measured_states_set policy = {} \<and>
      (case fst r of
         Inl e \<Rightarrow> True
       | Inr policy' \<Rightarrow>
           measured_states_set policy' =
             measured_states_set policy \<union>
             ToStr U ` set (measured_inputs (drop (length (measurer W)) (measurer (snd r))))))"

section \<open>Properties of the sketch rules\<close>

text \<open>
  C5 (amended). For a stage that exists, the always-inline rule fires, answering
  \<^verbatim>\<open>kApplyAndSkipRest\<close>, exactly when the stage is not a placeholder, its op is not an
  output, it has no reduction iterator, and it either carries the tag
  \<^verbatim>\<open>always_compute_inline\<close> or the analyzer confirms strict inlinability; otherwise it
  answers \<^verbatim>\<open>kPass\<close>, as it always does on a placeholder. When applied it emits one state,
  the result of \<^verbatim>\<open>compute_inline\<close> on the stage, and moves to \<open>stage_id - 1\<close>.
\<close>

theorem RuleAlwaysInline_condition:
  assumes "at_index (stages state) stage_id = Inr stage"
  shows "(RuleAlwaysInline_MeetCondition E policy state stage_id = Inr kApplyAndSkipRest) =
           (op_type stage \<noteq> kPlaceholder \<and>
            \<not> IsOutputOp (utils E) state stage_id \<and>
            \<not> HasReduceIter (utils E) stage \<and>
            (HasAttrsFlag (utils E) state stage_id always_compute_inline \<or>
             IsStrictInlineable (utils E) state stage_id)) \<and>
         (RuleAlwaysInline_MeetCondition E policy state stage_id \<noteq> Inr kApplyAndSkipRest) =
           (RuleAlwaysInline_MeetCondition E policy state stage_id = Inr kPass) \<and>
         (op_type stage = kPlaceholder \<longrightarrow>
            RuleAlwaysInline_MeetCondition E policy state stage_id = Inr kPass) \<and>
         RuleAlwaysInline_Apply E policy state stage_id =
           [(compute_inline (transforms E) state stage_id, stage_id - 1)]"
  using assms
  by (simp add: RuleAlwaysInline_MeetCondition_def ShouldAlwaysBeInlined_def
        RuleAlwaysInline_Apply_def)

text \<open>A tagged elementwise stage that is not the output: the rule fires and inlines it.\<close>

theorem RuleAlwaysInline_condition_witness:
  "RuleAlwaysInline_MeetCondition example_env (example_policy (example_state [] []) True)
     (example_state [tagged_stage, plain_stage] []) 0 = Inr kApplyAndSkipRest \<and>
   RuleAlwaysInline_Apply example_env (example_policy (example_state [] []) True)
     (example_state [tagged_stage, plain_stage] []) 0 =
     [(compute_inline (transforms example_env) (example_state [tagged_stage, plain_stage] []) 0,
       - 1)]"
proof -
  have a: "at_index (stages (example_state [tagged_stage, plain_stage] [])) 0 = Inr tagged_stage"
    by (simp add: at_index_def example_state_def)
  have b: "RuleAlwaysInline_MeetCondition example_env (example_policy (example_state [] []) True)
     (example_state [tagged_stage, plain_stage] []) 0 = Inr kApplyAndSkipRest"
    by code_simp
  show ?thesis
    using RuleAlwaysInline_condition [OF a, of example_env
      "example_policy (example_state [] []) True"] b
    by simp
qed

text \<open>The same stage refutes the condition as the specification words it: the analyzer
  does not find the op strict-inlinable (only the tag asks for the inlining), and the
  rule fires all the same.\<close>

theorem RuleAlwaysInline_claimed_condition_counterexample:
  "RuleAlwaysInline_MeetCondition example_env (example_policy (example_state [] []) True)
     (example_state [tagged_stage, plain_stage] []) 0 = Inr kApplyAndSkipRest \<and>
   \<not> claimed_AlwaysInline_condition example_env
       (example_state [tagged_stage, plain_stage] []) 0 tagged_stage"
  by code_simp

lemma tolower_nul: "tolower (CHR 0x00) \<noteq> CHR ''s''"
  by code_simp

lemma string_at_spatial:
  assumes "0 \<le> level - 1" "level - 1 \<le> int (length structure)"
  shows "\<exists>c. string_at structure (level - 1) = Inr c \<and>
             (tolower c = CHR ''s'') = spatial_level structure level"
proof (cases "level - 1 < int (length structure)")
  case True
  then show ?thesis using assms by (simp add: string_at_def spatial_level_def)
next
  case False
  then have "level - 1 = int (length structure)" using assms by simp
  then show ?thesis using assms tolower_nul by (simp add: string_at_def spatial_level_def)
qed

lemma follow_tiling_loop_levels:
  assumes "\<forall>level \<in> set levels. 0 \<le> level - 1 \<and> level - 1 \<le> int (length structure)"
    and "\<forall>level \<in> set (filter (spatial_level structure) levels).
           fusion_lookup_ok E (target_stage_id policy) base_state ids level"
  shows "follow_tiling_loop E policy base_state ids structure stage_id levels =
           Inr (map (fusion_variant E (target_stage_id policy) base_state ids stage_id)
                  (filter (spatial_level structure) levels))"
  using assms
proof (induction levels)
  case Nil
  then show ?case by simp
next
  case (Cons level levels)
  have rng: "0 \<le> level - 1" "level - 1 \<le> int (length structure)" using Cons.prems(1) by auto
  obtain c where c: "string_at structure (level - 1) = Inr c"
    and sp: "(tolower c = CHR ''s'') = spatial_level structure level"
    using string_at_spatial [OF rng] by blast
  have IH: "follow_tiling_loop E policy base_state ids structure stage_id levels =
           Inr (map (fusion_variant E (target_stage_id policy) base_state ids stage_id)
                  (filter (spatial_level structure) levels))"
    using Cons.IH Cons.prems by auto
  show ?case
  proof (cases "spatial_level structure level")
    case False
    then show ?thesis using c sp IH by simp
  next
    case True
    then have ok: "fusion_lookup_ok E (target_stage_id policy) base_state ids level"
      using Cons.prems(2) by simp
    show ?thesis using c sp IH True ok
      by (simp add: fusion_lookup_ok_def fusion_variant_def at_index_def Let_def)
  qed
qed

text \<open>
  C6. The fusion rule applies exactly when the stage needs multi-level tiling and has a
  single elementwise-matched consumer, and it answers \<^verbatim>\<open>kApplyAndSkipRest\<close> exactly when
  in addition the stage has a cache-write stage. Its condition leaves the consumer in
  \<open>target_stage_id\<close>. When applied (with a structure string that is not empty, and where
  the lookups of the consumer's iterator succeed) it emits one successor state for each
  of the levels 1 and 2 whose character in the structure string is spatial, in this order:
  the multi-level tiling of the stage, the follow-tiling of the consumer at the level, and
  \<^verbatim>\<open>compute_at\<close> of the stage into the consumer at the iterator
  \<open>level * |spatial_split_step_ids| - 1\<close>; each moves to \<open>stage_id - 1\<close>.
\<close>

theorem RuleMultiLevelTilingWithFusion_effect:
  assumes "cpu_structure (params policy) \<noteq> []"
    and "policy' = snd (RuleMultiLevelTilingWithFusion_MeetCondition E policy state stage_id)"
    and "\<forall>level \<in> set (filter (spatial_level (cpu_structure (params policy))) [1, 2]).
           fusion_lookup_ok E (target_stage_id policy')
             (fst (DoMultiLevelTiling (transforms E) state stage_id (cpu_structure (params policy))))
             (snd (DoMultiLevelTiling (transforms E) state stage_id (cpu_structure (params policy))))
             level"
  shows "(fst (RuleMultiLevelTilingWithFusion_MeetCondition E policy state stage_id) \<noteq> kPass) =
           (NeedsMultilevelTiling (utils E) state stage_id \<and>
            HasSingleElementwiseMatchedConsumer (utils E) state stage_id) \<and>
         (fst (RuleMultiLevelTilingWithFusion_MeetCondition E policy state stage_id)
            = kApplyAndSkipRest) =
           (NeedsMultilevelTiling (utils E) state stage_id \<and>
            HasSingleElementwiseMatchedConsumer (utils E) state stage_id \<and>
            HasCacheWriteStage (utils E) state stage_id) \<and>
         (NeedsMultilevelTiling (utils E) state stage_id \<longrightarrow>
            target_stage_id policy' =
              matched_consumer_target (utils E) state stage_id (target_stage_id policy)) \<and>
         RuleMultiLevelTilingWithFusion_Apply E policy' state stage_id =
           Inr (map (fusion_variant E (target_stage_id policy')
                       (fst (DoMultiLevelTiling (transforms E) state stage_id
                               (cpu_structure (params policy))))
                       (snd (DoMultiLevelTiling (transforms E) state stage_id
                               (cpu_structure (params policy))))
                       stage_id)
                  (filter (spatial_level (cpu_structure (params policy))) [1, 2]))"
proof -
  have par: "params policy' = params policy"
    using assms(2) by (simp add: RuleMultiLevelTilingWithFusion_MeetCondition_def Let_def)
  have len: "1 \<le> int (length (cpu_structure (params policy)))"
    using assms(1) by (cases "cpu_structure (params policy)") auto
  have app: "RuleMultiLevelTilingWithFusion_Apply E policy' state stage_id =
           Inr (map (fusion_variant E (target_stage_id policy')
                       (fst (DoMultiLevelTiling (transforms E) state stage_id
                               (cpu_structure (params policy))))
                       (snd (DoMultiLevelTiling (transforms E) state stage_id
                               (cpu_structure (params policy))))
                       stage_id)
                  (filter (spatial_level (cpu_structure (params policy))) [1, 2]))"
    unfolding RuleMultiLevelTilingWithFusion_Apply_def Let_def par
    by (rule follow_tiling_loop_levels) (use len assms(3) in auto)
  show ?thesis
    using app assms(2)
    by (simp add: RuleMultiLevelTilingWithFusion_MeetCondition_def Let_def)
qed

text \<open>A reduction stage with an elementwise consumer of two iterators, under the
  structure \<^verbatim>\<open>SSRSRS\<close>: both levels are spatial and two states are emitted.\<close>

theorem RuleMultiLevelTilingWithFusion_effect_witness:
  "fst (RuleMultiLevelTilingWithFusion_MeetCondition fusion_env
          (example_policy (example_state [] []) True)
          (example_state [placeholder_stage, reduce_stage, plain_stage] []) 1) = kApply \<and>
   RuleMultiLevelTilingWithFusion_Apply fusion_env
     (snd (RuleMultiLevelTilingWithFusion_MeetCondition fusion_env
             (example_policy (example_state [] []) True)
             (example_state [placeholder_stage, reduce_stage, plain_stage] []) 1))
     (example_state [placeholder_stage, reduce_stage, plain_stage] []) 1 =
   Inr (map (fusion_variant fusion_env 2
               (fst (DoMultiLevelTiling (transforms fusion_env)
                       (example_state [placeholder_stage, reduce_stage, plain_stage] []) 1
                       ''SSRSRS''))
               (snd (DoMultiLevelTiling (transforms fusion_env)
                       (example_state [placeholder_stage, reduce_stage, plain_stage] []) 1
                       ''SSRSRS''))
               1)
          [1, 2]) \<and>
   map (\<lambda>p. (transform_steps (fst p), snd p))
     (projr (RuleMultiLevelTilingWithFusion_Apply fusion_env
        (snd (RuleMultiLevelTilingWithFusion_MeetCondition fusion_env
                (example_policy (example_state [] []) True)
                (example_state [placeholder_stage, reduce_stage, plain_stage] []) 1))
        (example_state [placeholder_stage, reduce_stage, plain_stage] []) 1)) =
     [([SplitStep 1 0 (Some 16) [None, None] True, SplitStep 2 0 (Some 16) [None] True,
        ComputeAtStep 1 [2]], 0),
      ([SplitStep 1 0 (Some 16) [None, None] True, SplitStep 2 0 (Some 16) [None, None] True,
        ComputeAtStep 1 [2]], 0)]"
proof -
  let ?policy = "example_policy (example_state [] []) True"
  let ?state = "example_state [placeholder_stage, reduce_stage, plain_stage] []"
  let ?policy' = "snd (RuleMultiLevelTilingWithFusion_MeetCondition fusion_env ?policy ?state 1)"
  have str: "cpu_structure (params ?policy) = ''SSRSRS''"
    by (simp add: example_policy_def example_params_def)
  have ne: "cpu_structure (params ?policy) \<noteq> []" by (simp add: str)
  have tgt: "target_stage_id ?policy' = 2" by code_simp
  have lv: "filter (spatial_level ''SSRSRS'') [1, 2] = [1, 2]" by code_simp
  have ok: "\<forall>level \<in> set (filter (spatial_level (cpu_structure (params ?policy))) [1, 2]).
           fusion_lookup_ok fusion_env (target_stage_id ?policy')
             (fst (DoMultiLevelTiling (transforms fusion_env) ?state 1
                     (cpu_structure (params ?policy))))
             (snd (DoMultiLevelTiling (transforms fusion_env) ?state 1
                     (cpu_structure (params ?policy))))
             level"
    unfolding str lv by code_simp
  have c: "fst (RuleMultiLevelTilingWithFusion_MeetCondition fusion_env ?policy ?state 1)
             = kApply"
    by code_simp
  have steps: "map (\<lambda>p. (transform_steps (fst p), snd p))
     (projr (RuleMultiLevelTilingWithFusion_Apply fusion_env ?policy' ?state 1)) =
     [([SplitStep 1 0 (Some 16) [None, None] True, SplitStep 2 0 (Some 16) [None] True,
        ComputeAtStep 1 [2]], 0),
      ([SplitStep 1 0 (Some 16) [None, None] True, SplitStep 2 0 (Some 16) [None, None] True,
        ComputeAtStep 1 [2]], 0)]"
    by code_simp
  show ?thesis
    using RuleMultiLevelTilingWithFusion_effect [OF ne refl ok] c steps
    unfolding str lv tgt by simp
qed

text \<open>
  C7. The rfactor rule applies exactly when the stage needs multi-level tiling, has no
  cache-write stage yet, and has a fuse-factorable reduction axis. When applied it fuses
  all reduction iterators, splits the fused iterator by the factor 1 and, the split
  returning its two iterators, emits exactly two successor states: the rfactor on the
  first iterator as it is, and the rfactor on the second with the iterator at position
  \<open>|space_iters|\<close> of the new stage reordered to the innermost position. Each moves to the
  stage before the rfactor stage.
\<close>

theorem RuleAddRfactor_effect:
  assumes "fused = FuseAllReductionIterators (transforms E) state stage_id"
    and "split = split_iter (transforms E) (fst fused) stage_id (fst (snd fused)) [Some 1]"
    and "length (snd split) = 2"
    and "reorder_lookup_ok E (fst split) (snd split) (length (fst (snd (snd fused)))) stage_id"
  shows "(RuleAddRfactor_MeetCondition E policy state stage_id = kApply) =
           (NeedsMultilevelTiling (utils E) state stage_id \<and>
            \<not> HasCacheWriteStage (utils E) state stage_id \<and>
            HasFuseFactorableReduction (utils E) state stage_id) \<and>
         (RuleAddRfactor_MeetCondition E policy state stage_id \<noteq> kApply) =
           (RuleAddRfactor_MeetCondition E policy state stage_id = kPass) \<and>
         RuleAddRfactor_Apply E policy state stage_id =
           Inr [rfactor_variant_plain E (fst split) (snd split)
                  (length (fst (snd (snd fused)))) stage_id,
                rfactor_variant_reordered E (fst split) (snd split)
                  (length (fst (snd (snd fused)))) stage_id]"
proof -
  have upt: "[0..<length (snd split)] = [0, 1]"
    using assms(3) by (simp add: upt_rec)
  have second: "at_index (snd split) 1 = Inr (snd split ! 1)"
    using assms(3) by (simp add: at_index_def)
  have cond: "(RuleAddRfactor_MeetCondition E policy state stage_id = kApply) =
           (NeedsMultilevelTiling (utils E) state stage_id \<and>
            \<not> HasCacheWriteStage (utils E) state stage_id \<and>
            HasFuseFactorableReduction (utils E) state stage_id)"
    by (auto simp: RuleAddRfactor_MeetCondition_def NeedsRfactor_def)
  have cond2: "(RuleAddRfactor_MeetCondition E policy state stage_id \<noteq> kApply) =
           (RuleAddRfactor_MeetCondition E policy state stage_id = kPass)"
    by (simp add: RuleAddRfactor_MeetCondition_def)
  have app: "RuleAddRfactor_Apply E policy state stage_id =
           Inr [rfactor_variant_plain E (fst split) (snd split)
                  (length (fst (snd (snd fused)))) stage_id,
                rfactor_variant_reordered E (fst split) (snd split)
                  (length (fst (snd (snd fused)))) stage_id]"
    using assms(4) second
    unfolding RuleAddRfactor_Apply_def Let_def assms(1) [symmetric] assms(2) [symmetric] upt
    by (simp add: rfactor_variant_plain_def rfactor_variant_reordered_def
          reorder_lookup_ok_def reorder_space_innermost_def at_index_def Let_def)
  show ?thesis using cond cond2 app by blast
qed

text \<open>The reduction stage of the example task.\<close>

theorem RuleAddRfactor_effect_witness:
  "RuleAddRfactor_MeetCondition example_env (example_policy (example_state [] []) True)
     (example_state [placeholder_stage, reduce_stage] []) 1 = kApply \<and>
   length (projr (RuleAddRfactor_Apply example_env (example_policy (example_state [] []) True)
     (example_state [placeholder_stage, reduce_stage] []) 1)) = 2 \<and>
   map (\<lambda>p. (transform_steps (fst p), snd p))
     (projr (RuleAddRfactor_Apply example_env (example_policy (example_state [] []) True)
        (example_state [placeholder_stage, reduce_stage] []) 1)) =
     [([FuseStep 1 [1], SplitStep 1 1 (Some 16) [Some 1] True, RfactorStep 1 [1]], 0),
      ([FuseStep 1 [1], SplitStep 1 1 (Some 16) [Some 1] True, RfactorStep 1 [1],
        ReorderStep 1 []], 0)]"
proof -
  let ?policy = "example_policy (example_state [] []) True"
  let ?state = "example_state [placeholder_stage, reduce_stage] []"
  let ?fused = "FuseAllReductionIterators (transforms example_env) ?state 1"
  let ?split = "split_iter (transforms example_env) (fst ?fused) 1 (fst (snd ?fused)) [Some 1]"
  have two: "length (snd ?split) = 2" by code_simp
  have ok: "reorder_lookup_ok example_env (fst ?split) (snd ?split)
              (length (fst (snd (snd ?fused)))) 1"
    by code_simp
  have c: "RuleAddRfactor_MeetCondition example_env ?policy ?state 1 = kApply" by code_simp
  have steps: "map (\<lambda>p. (transform_steps (fst p), snd p))
     (projr (RuleAddRfactor_Apply example_env ?policy ?state 1)) =
     [([FuseStep 1 [1], SplitStep 1 1 (Some 16) [Some 1] True, RfactorStep 1 [1]], 0),
      ([FuseStep 1 [1], SplitStep 1 1 (Some 16) [Some 1] True, RfactorStep 1 [1],
        ReorderStep 1 []], 0)]"
    by code_simp
  have "RuleAddRfactor_Apply example_env ?policy ?state 1 =
           Inr [rfactor_variant_plain example_env (fst ?split) (snd ?split)
                  (length (fst (snd (snd ?fused)))) 1,
                rfactor_variant_reordered example_env (fst ?split) (snd ?split)
                  (length (fst (snd (snd ?fused)))) 1]"
    using RuleAddRfactor_effect [OF refl refl two ok, of ?policy] by blast
  then have "length (projr (RuleAddRfactor_Apply example_env ?policy ?state 1)) = 2" by simp
  then show ?thesis using c steps by blast
qed

section \<open>Properties of GenerateSketches\<close>

lemma unset_upto_skip:
  assumes "rfactor_splits_unset_upto steps k" "\<not> is_RfactorStep (steps ! k)"
  shows "rfactor_splits_unset_upto steps (Suc k)"
  using assms unfolding rfactor_splits_unset_upto_def
  by (auto simp: less_Suc_eq)

lemma unset_upto_update:
  assumes inv: "rfactor_splits_unset_upto steps k"
    and k: "k < length steps" "1 \<le> k" "is_RfactorStep (steps ! k)"
  shows "rfactor_splits_unset_upto
           (steps[k - 1 := SplitStep a b c [None] d]) (Suc k)"
  unfolding rfactor_splits_unset_upto_def
proof (intro ballI impI)
  fix i
  let ?steps' = "steps[k - 1 := SplitStep a b c [None] d]"
  assume "i \<in> {..<Suc k}"
  then have i1: "i < Suc k" by simp
  assume i2: "i < length ?steps'" and rf: "is_RfactorStep (?steps' ! i)"
  note i = i1 i2
  have ne: "i \<noteq> k - 1" using rf i k by (auto simp: nth_list_update)
  then have same: "?steps' ! i = steps ! i" by simp
  show "1 \<le> i \<and> split_lengths_unset (?steps' ! (i - 1))"
  proof (cases "i = k")
    case True
    then show ?thesis using k by simp
  next
    case False
    then have lt: "i < k" using i by simp
    from inv lt i rf same have a: "1 \<le> i" and b: "split_lengths_unset (steps ! (i - 1))"
      unfolding rfactor_splits_unset_upto_def by auto
    have "i - 1 \<noteq> k - 1" using ne a lt by arith
    then show ?thesis using a b by simp
  qed
qed

lemma unset_rfactor_splits_inv:
  "unset_rfactor_splits steps k = Inr steps' \<Longrightarrow> rfactor_splits_unset_upto steps k \<Longrightarrow>
   rfactor_splits_unset steps'"
proof (induction steps k rule: unset_rfactor_splits.induct)
  case (1 steps step_id)
  show ?case
  proof (cases "step_id < length steps")
    case False
    then have "steps' = steps" using "1.prems"(1)
      by (simp add: unset_rfactor_splits.simps [of steps step_id])
    then show ?thesis using "1.prems"(2) False
      unfolding rfactor_splits_unset_def rfactor_splits_unset_upto_def by auto
  next
    case lt: True
    show ?thesis
    proof (cases "is_RfactorStep (steps ! step_id)")
      case False
      then have "unset_rfactor_splits steps (step_id + 1) = Inr steps'"
        using "1.prems"(1) lt by (simp add: unset_rfactor_splits.simps [of steps step_id])
      moreover have "rfactor_splits_unset_upto steps (step_id + 1)"
        using unset_upto_skip [OF "1.prems"(2) False] by simp
      ultimately show ?thesis using "1.IH"(2) [OF lt False] by blast
    next
      case rf: True
      have ge: "step_id \<ge> 1" using "1.prems"(1) lt rf
        by (auto simp: unset_rfactor_splits.simps [of steps step_id] split: if_splits)
      obtain a b c l d where sp: "steps ! (step_id - 1) = SplitStep a b c l d"
        using "1.prems"(1) lt rf ge
        by (cases "steps ! (step_id - 1)")
           (auto simp: unset_rfactor_splits.simps [of steps step_id])
      have run: "unset_rfactor_splits (steps[step_id - 1 := SplitStep a b c [None] d])
                   (step_id + 1) = Inr steps'"
        using "1.prems"(1) lt rf ge sp
        by (simp add: unset_rfactor_splits.simps [of steps step_id])
      have "rfactor_splits_unset_upto (steps[step_id - 1 := SplitStep a b c [None] d])
              (step_id + 1)"
        using unset_upto_update [OF "1.prems"(2) lt ge rf] by simp
      then show ?thesis using "1.IH"(1) [OF lt rf ge sp run] by blast
    qed
  qed
qed

lemma unset_all_inv:
  "unset_all out_states = Inr out_states' \<Longrightarrow>
   \<forall>s \<in> set out_states'. rfactor_splits_unset (transform_steps s)"
proof (induction out_states arbitrary: out_states')
  case Nil
  then show ?case by simp
next
  case (Cons s ss)
  from Cons.prems obtain steps rest where
    a: "unset_rfactor_splits (transform_steps s) 0 = Inr steps" and
    b: "unset_all ss = Inr rest" and
    c: "out_states' = s\<lparr>transform_steps := steps\<rparr> # rest"
    by (auto split: sum.splits)
  have "rfactor_splits_unset steps"
    by (rule unset_rfactor_splits_inv [OF a]) (simp add: rfactor_splits_unset_upto_def)
  then show ?case using Cons.IH [OF b] c by simp
qed

text \<open>
  C8. In every state that \<open>GenerateSketches\<close> emits, every rfactor step of the transform
  history has a step before it, that step is a split step, and after the final pass its
  lengths are the single undefined length: all of them are unset.
\<close>

theorem GenerateSketches_rfactor_splits_unset:
  "GenerateSketches fuel E policy = Inr (out_states, policy') \<Longrightarrow>
   \<forall>s \<in> set out_states. rfactor_splits_unset (transform_steps s)"
  unfolding GenerateSketches_def Let_def
  by (auto split: sum.splits dest!: unset_all_inv)

text \<open>On the example task (a placeholder and a reduction stage) the six rules emit four
  sketches; two of them hold an rfactor step, and the split before it has lost the
  length 1 it was made with.\<close>

theorem GenerateSketches_rfactor_splits_unset_witness:
  "map transform_steps
     (fst (projr (GenerateSketches 5 example_env
        (example_policy (example_state [placeholder_stage, reduce_stage] []) True))))
     = [[FuseStep 1 [1], SplitStep 1 1 (Some 16) [None] True, RfactorStep 1 [1]],
        [FuseStep 1 [1], SplitStep 1 1 (Some 16) [None] True, RfactorStep 1 [1],
         ReorderStep 1 []],
        [SplitStep 1 0 (Some 16) [None, None] True],
        []] \<and>
   list_all (\<lambda>s. rfactor_splits_unset (transform_steps s))
     (fst (projr (GenerateSketches 5 example_env
        (example_policy (example_state [placeholder_stage, reduce_stage] []) True))))"
proof -
  let ?r = "GenerateSketches 5 example_env
              (example_policy (example_state [placeholder_stage, reduce_stage] []) True)"
  have "isl ?r = False" by code_simp
  then have r: "?r = Inr (fst (projr ?r), snd (projr ?r))" by (cases ?r) auto
  have steps: "map transform_steps (fst (projr ?r))
     = [[FuseStep 1 [1], SplitStep 1 1 (Some 16) [None] True, RfactorStep 1 [1]],
        [FuseStep 1 [1], SplitStep 1 1 (Some 16) [None] True, RfactorStep 1 [1],
         ReorderStep 1 []],
        [SplitStep 1 0 (Some 16) [None, None] True],
        []]"
    by code_simp
  show ?thesis
    using GenerateSketches_rfactor_splits_unset [OF r] steps
    by (simp add: list_all_iff)
qed

section \<open>Properties of the init population rules\<close>

lemma factor_tuples_props:
  "fs \<in> set (factor_tuples n e) \<Longrightarrow>
     length fs = n \<and> (\<forall>f \<in> set fs. 0 < f) \<and> prod_list fs dvd e"
proof (induction n arbitrary: e fs)
  case 0
  then show ?case by simp
next
  case (Suc n)
  from Suc.prems have
    "fs \<in> (\<Union>f \<in> set (filter (\<lambda>f. f dvd e) [1..<Suc e]).
             (\<lambda>fs. f # fs) ` set (factor_tuples n (e div f)))"
    by (simp only: factor_tuples.simps set_concat set_map image_image)
  then obtain f fs' where
    f: "f \<in> set (filter (\<lambda>f. f dvd e) [1..<Suc e])"
    and fs': "fs' \<in> set (factor_tuples n (e div f))"
    and fs: "fs = f # fs'"
    by blast
  have fpos: "0 < f" and fdv: "f dvd e" using f by (simp_all del: upt_Suc)
  from Suc.IH [OF fs'] have len: "length fs' = n" and pos: "\<forall>f \<in> set fs'. 0 < f"
    and dv: "prod_list fs' dvd e div f" by blast+
  have "f * prod_list fs' dvd f * (e div f)" using dv by (rule mult_dvd_mono [OF dvd_refl])
  then have "f * prod_list fs' dvd e" using fdv by simp
  then show ?case using len pos fpos by (simp add: fs)
qed

lemma factor_tuples_extent_pos:
  assumes "fs \<in> set (factor_tuples (Suc n) e)"
  shows "0 < e"
proof (rule ccontr)
  assume "\<not> 0 < e"
  then have "e = 0" by simp
  then have "factor_tuples (Suc n) e = []" by simp
  then show False using assms by simp
qed

lemma prod_list_int: "prod_list (map int fs) = int (prod_list fs)"
  by (induction fs) auto

lemma prod_list_pos_nat: "\<forall>f \<in> set fs. 0 < f \<Longrightarrow> 0 < prod_list (fs :: nat list)"
  by (induction fs) auto

lemma GetFactorizationSchemes_factorization:
  assumes "lens \<in> set (GetFactorizationSchemes extent n max_innermost_factor)" "0 < n"
  shows "is_factorization extent n max_innermost_factor lens"
proof -
  from assms(1) obtain fs where fs: "fs \<in> set (factor_tuples n (nat extent))"
    and inner: "fs = [] \<or> int (last fs) \<le> max_innermost_factor" and lens: "lens = map int fs"
    by (auto simp: GetFactorizationSchemes_def)
  from factor_tuples_props [OF fs] have len: "length fs = n" and pos: "\<forall>f \<in> set fs. 0 < f"
    and dv: "prod_list fs dvd nat extent" by auto
  obtain m where n: "n = Suc m" using assms(2) by (cases n) auto
  have epos: "0 < nat extent" using fs factor_tuples_extent_pos unfolding n by blast
  then have ext: "int (nat extent) = extent" by simp
  have ppos: "0 < prod_list fs" by (rule prod_list_pos_nat [OF pos])
  have ne: "fs \<noteq> []" using len n by auto
  have q: "(nat extent div prod_list fs) * prod_list fs = nat extent"
    using dv by simp
  have qpos: "0 < nat extent div prod_list fs"
    using q epos by (cases "nat extent div prod_list fs") auto
  have pl: "prod_list lens = int (prod_list fs)" by (simp add: lens prod_list_int)
  have "int (nat extent div prod_list fs) = int (nat extent) div int (prod_list fs)"
    by (rule zdiv_int)
  then have dvi: "extent div prod_list lens = int (nat extent div prod_list fs)"
    unfolding pl ext by simp
  have "int (nat extent div prod_list fs) * int (prod_list fs) = int (nat extent)"
    unfolding of_nat_mult [symmetric] q ..
  then have "(extent div prod_list lens) * prod_list lens = extent"
    using dvi pl ext by simp
  moreover have "0 < extent div prod_list lens" unfolding dvi using qpos by simp
  moreover have "list_all (\<lambda>l. 0 < l) lens" using pos by (simp add: lens list_all_iff)
  moreover have "last lens \<le> max_innermost_factor"
    using inner ne by (simp add: lens last_map)
  ultimately show ?thesis using len ne by (simp add: is_factorization_def lens)
qed

lemma narrow_int_fits: "fits_int x \<Longrightarrow> narrow_int x = x"
  by (simp add: fits_int_def narrow_int_def)

lemma fills_between_same: "fills_between steps k k = 0"
  by (simp add: fills_between_def)

lemma fills_between_step:
  assumes "k < i" "k < length steps"
  shows "fills_between steps k i =
           (if needs_fill (steps ! k) then 1 else 0) + fills_between steps (Suc k) i"
proof -
  have d: "drop k steps = steps ! k # drop (Suc k) steps"
    using assms(2) by (simp add: Cons_nth_drop_Suc)
  obtain j where j: "i - k = Suc j" using assms(1) by (cases "i - k") auto
  then have j': "i - Suc k = j" by simp
  show ?thesis unfolding fills_between_def d j j' by simp
qed

lemma fills_between_update:
  "fills_between (steps[k := x]) (Suc k) i = fills_between steps (Suc k) i"
  by (simp add: fills_between_def)

lemma tile_sizes_filled_same: "\<not> needs_fill step \<Longrightarrow> tile_sizes_filled m r step step"
  by (cases step) (auto simp: tile_sizes_filled_def)

lemma fill_tile_sizes_done:
  "\<not> k < length steps \<Longrightarrow> fill_tile_sizes policy steps k = Inr (steps, policy)"
  by (simp add: fill_tile_sizes.simps [of policy steps k])

lemma fill_tile_sizes_skip:
  "k < length steps \<Longrightarrow> \<not> needs_fill (steps ! k) \<Longrightarrow>
   fill_tile_sizes policy steps k = fill_tile_sizes policy steps (Suc k)"
  by (cases "steps ! k") (auto simp: fill_tile_sizes.simps [of policy steps k])

lemma fill_tile_sizes_fill:
  "k < length steps \<Longrightarrow> steps ! k = SplitStep a b c l d \<Longrightarrow> \<not> all_defined l \<Longrightarrow>
   fill_tile_sizes policy steps k =
     (case c of
        None \<Rightarrow> Inl CheckFailed
      | Some ext \<Rightarrow>
          if GetFactorizationSchemes (narrow_int ext) (length l)
               (max_innermost_split_factor (params policy)) = [] then Inl DivideByZero
          else
            fill_tile_sizes (policy\<lparr>rand_gen := snd (rand_next (rand_gen policy))\<rparr>)
              (steps[k := SplitStep a b c
                 (map Some
                    (GetFactorizationSchemes (narrow_int ext) (length l)
                       (max_innermost_split_factor (params policy))
                     ! (fst (rand_next (rand_gen policy)) mod
                        length (GetFactorizationSchemes (narrow_int ext) (length l)
                                  (max_innermost_split_factor (params policy)))))) d])
              (Suc k))"
  by (simp add: fill_tile_sizes.simps [of policy steps k] Let_def split: option.splits)

lemma fill_tile_sizes_spec:
  "fill_tile_sizes policy steps k = Inr (steps', policy') \<Longrightarrow>
   length steps' = length steps \<and>
   (\<forall>i < length steps.
      if i < k then steps' ! i = steps ! i
      else tile_sizes_filled (max_innermost_split_factor (params policy))
             (rand_gen policy (fills_between steps k i)) (steps ! i) (steps' ! i))"
proof (induction "length steps - k" arbitrary: policy steps k)
  case 0
  then have "\<not> k < length steps" by simp
  then have "steps' = steps" using "0.prems" by (simp add: fill_tile_sizes_done)
  then show ?case using \<open>\<not> k < length steps\<close> by simp
next
  case (Suc n)
  let ?m = "max_innermost_split_factor (params policy)"
  have lt: "k < length steps" using Suc.hyps(2) by simp
  show ?case
  proof (cases "needs_fill (steps ! k)")
    case nf: False
    have run: "fill_tile_sizes policy steps (Suc k) = Inr (steps', policy')"
      using Suc.prems fill_tile_sizes_skip [OF lt nf] by simp
    have n: "n = length steps - Suc k" using Suc.hyps(2) by simp
    note IH = Suc.hyps(1) [OF n run]
    show ?thesis
    proof (intro conjI allI impI)
      show "length steps' = length steps" using IH by simp
    next
      fix i assume i: "i < length steps"
      consider "i < k" | "i = k" | "k < i" by linarith
      then show "if i < k then steps' ! i = steps ! i
            else tile_sizes_filled ?m (rand_gen policy (fills_between steps k i))
                   (steps ! i) (steps' ! i)"
      proof cases
        case 1
        then show ?thesis using IH i by auto
      next
        case 2
        then have "steps' ! i = steps ! i" using IH i by auto
        then show ?thesis using 2 nf tile_sizes_filled_same by simp
      next
        case 3
        have "fills_between steps k i = fills_between steps (Suc k) i"
          using fills_between_step [OF 3 lt] nf by simp
        then show ?thesis using IH i 3 by auto
      qed
    qed
  next
    case nf: True
    then obtain a b c l d where sp: "steps ! k = SplitStep a b c l d" and nd: "\<not> all_defined l"
      by (cases "steps ! k") auto
    note unfold = fill_tile_sizes_fill [OF lt sp nd, of policy]
    obtain ext where c: "c = Some ext"
      using Suc.prems unfold by (cases c) auto
    let ?schemes = "GetFactorizationSchemes (narrow_int ext) (length l) ?m"
    have sne: "?schemes \<noteq> []"
      using Suc.prems unfold c by (auto split: if_splits)
    let ?r = "rand_next (rand_gen policy)"
    let ?lens = "?schemes ! (fst ?r mod length ?schemes)"
    let ?new = "SplitStep a b c (map Some ?lens) d"
    let ?policy1 = "policy\<lparr>rand_gen := snd ?r\<rparr>"
    have run: "fill_tile_sizes ?policy1 (steps[k := ?new]) (Suc k) = Inr (steps', policy')"
      using Suc.prems unfold c sne by simp
    have n: "n = length (steps[k := ?new]) - Suc k" using Suc.hyps(2) by simp
    note IH = Suc.hyps(1) [OF n run]
    have lpos: "0 < length l" using nd by (cases l) (auto simp: all_defined_def)
    have mem: "?lens \<in> set ?schemes" using sne by simp
    have fact: "is_factorization (narrow_int ext) (length l) ?m ?lens"
      by (rule GetFactorizationSchemes_factorization [OF mem lpos])
    have fact': "fits_int ext \<longrightarrow> is_factorization ext (length l) ?m ?lens"
    proof
      assume "fits_int ext"
      then have "narrow_int ext = ext" by (rule narrow_int_fits)
      then show "is_factorization ext (length l) ?m ?lens" using fact by simp
    qed
    show ?thesis
    proof (intro conjI allI impI)
      show "length steps' = length steps" using IH by simp
    next
      fix i assume i: "i < length steps"
      consider "i < k" | "i = k" | "k < i" by linarith
      then show "if i < k then steps' ! i = steps ! i
            else tile_sizes_filled ?m (rand_gen policy (fills_between steps k i))
                   (steps ! i) (steps' ! i)"
      proof cases
        case 1
        then show ?thesis using IH i by auto
      next
        case 2
        then have "steps' ! i = ?new" using IH i by auto
        then show ?thesis using 2 sp nd c sne fact fact'
          by (simp add: tile_sizes_filled_def fills_between_same rand_next_def Let_def)
      next
        case 3
        have cnt: "fills_between steps k i = Suc (fills_between steps (Suc k) i)"
          using fills_between_step [OF 3 lt] nf by simp
        have "tile_sizes_filled ?m
                (snd ?r (fills_between steps (Suc k) i)) (steps ! i) (steps' ! i)"
          using IH i 3 by (auto simp: fills_between_update)
        then show ?thesis using 3 cnt by (simp add: rand_next_def)
      qed
    qed
  qed
qed

lemma tile_sizes_filled_defined:
  "tile_sizes_filled m r step step' \<Longrightarrow> split_lengths_defined step'"
  by (cases step)
     (auto simp: tile_sizes_filled_def all_defined_def Let_def list_all_iff
           split: if_splits option.splits)

text \<open>
  C4 (amended). In every state that \<open>InitFillTileSize\<close> returns, every split step of the
  transform history has all its lengths defined. A split step that had an undefined length
  has been replaced: the stage, the iterator, the extent and the direction are kept, and
  the new lengths are a factorization scheme, for the same number \<open>n\<close> of lengths, of the
  extent as the rule reads it into an \<^verbatim>\<open>int\<close>. When an \<^verbatim>\<open>int\<close> holds the extent, the scheme
  with the quotient left to the outermost iterator is a factorization of the extent into
  \<open>n + 1\<close> positive integers whose innermost factor is at most
  \<^verbatim>\<open>max_innermost_split_factor\<close>. The scheme is the one at the index that the random
  generator gives, modulo the number of schemes: the \<open>k\<close>-th step to fill gets the \<open>k\<close>-th
  output of the generator. Every other step is unchanged, the rule answers \<^verbatim>\<open>kValid\<close> and
  the state is concrete.
\<close>

theorem InitFillTileSize_fills:
  assumes "InitFillTileSize_Apply E policy state = Inr (kind, state', policy')"
  shows "kind = kValid \<and> concrete state' \<and>
         length (transform_steps state') = length (transform_steps state) \<and>
         (\<forall>i \<in> {..<length (transform_steps state)}.
            tile_sizes_filled (max_innermost_split_factor (params policy))
              (rand_gen policy (length (filter needs_fill (take i (transform_steps state)))))
              (transform_steps state ! i) (transform_steps state' ! i)) \<and>
         list_all split_lengths_defined (transform_steps state')"
proof -
  from assms obtain steps' where
    run: "fill_tile_sizes policy (transform_steps state) 0 = Inr (steps', policy')"
    and st: "state' = state\<lparr>transform_steps := steps', concrete := True\<rparr>"
    and k: "kind = kValid"
    by (auto simp: InitFillTileSize_Apply_def split: sum.splits)
  note spec = fill_tile_sizes_spec [OF run]
  have len: "length steps' = length (transform_steps state)" using spec by simp
  have each: "\<forall>i \<in> {..<length (transform_steps state)}.
            tile_sizes_filled (max_innermost_split_factor (params policy))
              (rand_gen policy (length (filter needs_fill (take i (transform_steps state)))))
              (transform_steps state ! i) (steps' ! i)"
    using spec by (auto simp: fills_between_def)
  have "split_lengths_defined (steps' ! i)" if "i < length steps'" for i
  proof -
    have "i \<in> {..<length (transform_steps state)}" using that len by simp
    then show ?thesis using each tile_sizes_filled_defined by blast
  qed
  then have all: "list_all split_lengths_defined steps'"
    by (simp add: list_all_length)
  have s1: "transform_steps state' = steps'" and s2: "concrete state'"
    by (simp_all add: st)
  show ?thesis unfolding s1 using k s2 len each all by blast
qed

text \<open>A history with two splits to fill, of extents 16 (two lengths) and 12 (one
  length), and a generator that gives 7, 10, ...: the schemes at the indices 7 of 15 and
  4 of 6 are taken.\<close>

theorem InitFillTileSize_fills_witness:
  "transform_steps (fst (snd (projr (InitFillTileSize_Apply example_env
      ((example_policy (example_state [] []) True)\<lparr>rand_gen := (\<lambda>i. 7 + 3 * i)\<rparr>)
      split_state)))) =
     [SplitStep 1 0 (Some 16) [Some 2, Some 4] True, FuseStep 1 [1],
      SplitStep 1 1 (Some 16) [Some 4] True, SplitStep 1 1 (Some 12) [Some 6] False] \<and>
   is_factorization 16 2 64 [2, 4] \<and> is_factorization 12 1 64 [6] \<and>
   concrete (fst (snd (projr (InitFillTileSize_Apply example_env
      ((example_policy (example_state [] []) True)\<lparr>rand_gen := (\<lambda>i. 7 + 3 * i)\<rparr>)
      split_state)))) \<and>
   list_all split_lengths_defined
     (transform_steps (fst (snd (projr (InitFillTileSize_Apply example_env
        ((example_policy (example_state [] []) True)\<lparr>rand_gen := (\<lambda>i. 7 + 3 * i)\<rparr>)
        split_state)))))"
proof -
  let ?policy = "(example_policy (example_state [] []) True)\<lparr>rand_gen := (\<lambda>i. 7 + 3 * i)\<rparr>"
  let ?r = "InitFillTileSize_Apply example_env ?policy split_state"
  have "isl ?r = False" by code_simp
  then have r: "?r = Inr (fst (projr ?r), fst (snd (projr ?r)), snd (snd (projr ?r)))"
    by (cases ?r) auto
  have steps: "transform_steps (fst (snd (projr ?r))) =
     [SplitStep 1 0 (Some 16) [Some 2, Some 4] True, FuseStep 1 [1],
      SplitStep 1 1 (Some 16) [Some 4] True, SplitStep 1 1 (Some 12) [Some 6] False]"
    by code_simp
  have old: "transform_steps split_state =
     [SplitStep 1 0 (Some 16) [None, None] True, FuseStep 1 [1],
      SplitStep 1 1 (Some 16) [Some 4] True, SplitStep 1 1 (Some 12) [None] False]"
    by (simp add: split_state_def example_state_def)
  have m: "max_innermost_split_factor (params ?policy) = 64"
    by (simp add: example_policy_def example_params_def)
  note each = InitFillTileSize_fills [OF r, THEN conjunct2, THEN conjunct2, THEN conjunct2,
                THEN conjunct1, unfolded steps old m]
  have f0: "is_factorization 16 2 64 [2, 4]"
    using each [THEN bspec, of 0]
    by (auto simp: tile_sizes_filled_def Let_def all_defined_def fits_int_def numeral_2_eq_2)
  have f3: "is_factorization 12 1 64 [6]"
    using each [THEN bspec, of 3]
    by (auto simp: tile_sizes_filled_def Let_def all_defined_def fits_int_def)
  show ?thesis using InitFillTileSize_fills [OF r] steps f0 f3 by blast
qed

text \<open>A split step of extent \<^verbatim>\<open>2^32 + 3\<close> with one undefined length. The rule reads the
  extent into an \<^verbatim>\<open>int\<close>, which then holds 3, and takes a scheme of 3: with the generator
  giving 1 it is the scheme of the length 3, and 3 does not divide the extent of the
  step.\<close>

theorem InitFillTileSize_wide_extent_counterexample:
  "isl (InitFillTileSize_Apply example_env
      ((example_policy (example_state [] []) True)\<lparr>rand_gen := (\<lambda>i. 1 + i)\<rparr>)
      (example_state [placeholder_stage, reduce_stage]
         [SplitStep 1 0 (Some 4294967299) [None] True])) = False \<and>
   transform_steps (fst (snd (projr (InitFillTileSize_Apply example_env
      ((example_policy (example_state [] []) True)\<lparr>rand_gen := (\<lambda>i. 1 + i)\<rparr>)
      (example_state [placeholder_stage, reduce_stage]
         [SplitStep 1 0 (Some 4294967299) [None] True]))))) =
     [SplitStep 1 0 (Some 4294967299) [Some 3] True] \<and>
   \<not> is_factorization 4294967299 1 64 [3] \<and>
   4294967299 mod 3 = (1 :: int)"
  by code_simp

lemma extent_product_Suc:
  "extent_product E stage (Suc k) =
     extent_product E stage k * GetExtent (utils E) (innermost stage k)"
  by (simp add: extent_product_def)

lemma cum_extent_exact:
  "\<forall>i \<le> k. fits_int (extent_product E stage i) \<Longrightarrow>
   cum_extent E stage k = extent_product E stage k"
proof (induction k)
  case 0
  then show ?case by (simp add: extent_product_def)
next
  case (Suc k)
  have "cum_extent E stage k = extent_product E stage k" using Suc by simp
  moreover have "fits_int (extent_product E stage (Suc k))" using Suc.prems by simp
  ultimately show ?case by (simp add: extent_product_Suc narrow_int_fits)
qed

lemma count_fusible_step:
  "count_fusible E policy state stage_id stage (unroll_names E stage) k (cum_extent E stage k) =
     (if k < length (iters stage) then
        (if fusible_at E policy state stage_id stage k
         then count_fusible E policy state stage_id stage (unroll_names E stage) (Suc k)
                (cum_extent E stage (Suc k))
         else k)
      else k)"
  by (subst count_fusible.simps)
     (auto simp: fusible_at_def innermost_def Let_def)

lemma count_fusible_spec:
  "k \<le> length (iters stage) \<Longrightarrow>
   r = count_fusible E policy state stage_id stage (unroll_names E stage) k
         (cum_extent E stage k) \<Longrightarrow>
   k \<le> r \<and> r \<le> length (iters stage) \<and>
   (\<forall>j. k \<le> j \<and> j < r \<longrightarrow> fusible_at E policy state stage_id stage j) \<and>
   (r < length (iters stage) \<longrightarrow> \<not> fusible_at E policy state stage_id stage r)"
proof (induction "length (iters stage) - k" arbitrary: k)
  case 0
  then have "k = length (iters stage)" by simp
  then show ?case using "0.prems"(2) by (auto simp: count_fusible_step)
next
  case (Suc n)
  then have lt: "k < length (iters stage)" by simp
  show ?case
  proof (cases "fusible_at E policy state stage_id stage k")
    case False
    then have "r = k" using Suc.prems(2) lt by (simp add: count_fusible_step)
    then show ?thesis using False lt by auto
  next
    case True
    then have r: "r = count_fusible E policy state stage_id stage (unroll_names E stage) (Suc k)
                        (cum_extent E stage (Suc k))"
      using Suc.prems(2) lt by (simp add: count_fusible_step)
    have n: "n = length (iters stage) - Suc k" using Suc.hyps(2) by simp
    have le: "Suc k \<le> length (iters stage)" using lt by simp
    note IH = Suc.hyps(1) [OF n le r]
    have "fusible_at E policy state stage_id stage j" if "k \<le> j \<and> j < r" for j
    proof (cases "j = k")
      case True
      then show ?thesis using \<open>fusible_at E policy state stage_id stage k\<close> by simp
    next
      case False
      then have "Suc k \<le> j \<and> j < r" using that by simp
      then show ?thesis using IH by blast
    qed
    then show ?thesis using IH by auto
  qed
qed

text \<open>
  C9 (amended). For a stage that is not a placeholder, not inlined and not tensorized, the
  number of fusible iterators is the length of the longest run of innermost iterators
  such that each of them has no stage attached to it, is not a reduction iterator, has no
  annotation and is not named by \<^verbatim>\<open>always_unroll\<close>, no iterator but the innermost is taken
  when the stage is tiled, and the cumulative extent, as the \<^verbatim>\<open>int\<close> \<^verbatim>\<open>cum_length_prod\<close> holds
  it, stays within \<^verbatim>\<open>max_vectorize_size\<close>; it is the product of the extents as long as an
  \<^verbatim>\<open>int\<close> holds the products up to there. When the number exceeds one, the number taken is drawn with the random generator and is
  at least one and at most the number counted; otherwise it is the number counted. With
  none taken the state is unchanged, with one the innermost iterator is vectorized, with
  more that many innermost iterators are fused and the fused iterator is vectorized.
\<close>

theorem InitVectorization_fusible:
  assumes "stage_id < length (stages state)" "stage = stages state ! stage_id"
    and "compute_at stage \<noteq> kInlined" "op_type stage \<noteq> kPlaceholder"
    and "\<not> HasAnnotatedIter (utils E) stage kTensorize"
    and "counted = count_fusible E policy state (int stage_id) stage (unroll_names E stage) 0 1"
    and "m = chosen_fusible policy counted"
  shows "counted \<le> length (iters stage) \<and>
         (\<forall>j \<in> {..<counted}. fusible_at E policy state (int stage_id) stage j) \<and>
         (counted < length (iters stage) \<longrightarrow>
            \<not> fusible_at E policy state (int stage_id) stage counted) \<and>
         (\<forall>k. (\<forall>i \<le> k. fits_int (extent_product E stage i)) \<longrightarrow>
               cum_extent E stage k = extent_product E stage k) \<and>
         (counted > 1 \<longrightarrow> 1 \<le> m \<and> m \<le> counted) \<and>
         (counted \<le> 1 \<longrightarrow> m = counted) \<and>
         fst (vectorize_stage E policy state stage_id) =
           (if m = 0 then state
            else if m = 1 then
              vectorize (transforms E) state (int stage_id) (last (iters stage))
            else
              vectorize (transforms E)
                (fst (fuse (transforms E) state (int stage_id)
                        (drop (length (iters stage) - m) (iters stage))))
                (int stage_id)
                (snd (fuse (transforms E) state (int stage_id)
                        (drop (length (iters stage) - m) (iters stage)))))"
proof -
  have c0: "cum_extent E stage 0 = 1" by simp
  have r: "counted = count_fusible E policy state (int stage_id) stage (unroll_names E stage) 0
                       (cum_extent E stage 0)"
    using assms(6) c0 by simp
  have spec: "counted \<le> length (iters stage) \<and>
     (\<forall>j. 0 \<le> j \<and> j < counted \<longrightarrow> fusible_at E policy state (int stage_id) stage j) \<and>
     (counted < length (iters stage) \<longrightarrow>
        \<not> fusible_at E policy state (int stage_id) stage counted)"
    using count_fusible_spec [OF _ r] by simp
  have m1: "counted > 1 \<longrightarrow> 1 \<le> m \<and> m < counted"
  proof
    assume c: "counted > 1"
    then have "rand_gen policy 0 mod (counted - 1) < counted - 1" by simp
    then have "1 + rand_gen policy 0 mod (counted - 1) < counted" by linarith
    then show "1 \<le> m \<and> m < counted" using c assms(7) by (simp add: chosen_fusible_def)
  qed
  have m2: "counted \<le> 1 \<longrightarrow> m = counted" using assms(7) by (simp add: chosen_fusible_def)
  have v: "fst (vectorize_stage E policy state stage_id) =
           (if m = 0 then state
            else if m = 1 then
              vectorize (transforms E) state (int stage_id) (last (iters stage))
            else
              vectorize (transforms E)
                (fst (fuse (transforms E) state (int stage_id)
                        (drop (length (iters stage) - m) (iters stage))))
                (int stage_id)
                (snd (fuse (transforms E) state (int stage_id)
                        (drop (length (iters stage) - m) (iters stage)))))"
    using assms(3,4,5) m1 m2
    unfolding vectorize_stage_def assms(2) [symmetric] Let_def assms(6) [symmetric]
    by (auto simp: assms(7) chosen_fusible_def rand_next_def)
  have ex: "\<forall>k. (\<forall>i \<le> k. fits_int (extent_product E stage i)) \<longrightarrow>
               cum_extent E stage k = extent_product E stage k"
    using cum_extent_exact by blast
  have s1: "counted \<le> length (iters stage)"
    and s2: "\<forall>j \<in> {..<counted}. fusible_at E policy state (int stage_id) stage j"
    and s3: "counted < length (iters stage) \<longrightarrow>
               \<not> fusible_at E policy state (int stage_id) stage counted"
    using spec by auto
  have m1': "counted > 1 \<longrightarrow> 1 \<le> m \<and> m \<le> counted" using m1 by auto
  show ?thesis using s1 s2 s3 ex m1' m2 v by blast
qed

text \<open>A stage with two spatial iterators of extent 4 and nothing attached: both are
  fusible, one is taken and vectorized.\<close>

theorem InitVectorization_fusible_witness:
  "count_fusible example_env (example_policy (example_state [] []) True)
     (example_state [plain_stage, tagged_stage] []) 0 plain_stage
     (unroll_names example_env plain_stage) 0 1 = 2 \<and>
   fusible_at example_env (example_policy (example_state [] []) True)
     (example_state [plain_stage, tagged_stage] []) 0 plain_stage 0 \<and>
   fusible_at example_env (example_policy (example_state [] []) True)
     (example_state [plain_stage, tagged_stage] []) 0 plain_stage 1 \<and>
   fst (vectorize_stage example_env (example_policy (example_state [] []) True)
          (example_state [plain_stage, tagged_stage] []) 0) =
     vectorize (transforms example_env) (example_state [plain_stage, tagged_stage] []) 0
       (last (iters plain_stage))"
proof -
  let ?policy = "example_policy (example_state [] []) True"
  let ?state = "example_state [plain_stage, tagged_stage] []"
  have rng: "0 < length (stages ?state)" by (simp add: example_state_def)
  have st: "plain_stage = stages ?state ! 0" by (simp add: example_state_def)
  have a: "compute_at plain_stage \<noteq> kInlined" "op_type plain_stage \<noteq> kPlaceholder"
    by (simp_all add: plain_stage_def)
  have t: "\<not> HasAnnotatedIter (utils example_env) plain_stage kTensorize" by code_simp
  have c: "count_fusible example_env ?policy ?state 0 plain_stage
             (unroll_names example_env plain_stage) 0 1 = 2"
    by code_simp
  have m: "chosen_fusible ?policy 2 = 1" by code_simp
  have c': "2 = count_fusible example_env ?policy ?state (int 0) plain_stage
             (unroll_names example_env plain_stage) 0 1"
    using c by simp
  have all: "\<forall>j \<in> {..<2}. fusible_at example_env ?policy ?state (int 0) plain_stage j"
    using InitVectorization_fusible [OF rng st a t c' m [symmetric]] by blast
  have f0: "fusible_at example_env ?policy ?state 0 plain_stage 0"
    and f1: "fusible_at example_env ?policy ?state 0 plain_stage 1"
    using all by simp_all
  have v: "fst (vectorize_stage example_env ?policy ?state 0) =
     vectorize (transforms example_env) ?state 0 (last (iters plain_stage))"
    using InitVectorization_fusible [OF rng st a t c' m [symmetric]] by simp
  show ?thesis using c f0 f1 v by blast
qed

text \<open>The same stage with another stage attached at its innermost iterator: both
  iterators are spatial and unannotated and the extents 4 and 16 stay within the bound 16,
  so the count in the words of the specification is 2 and at least one iterator should be
  vectorized; the walk of the source stops at once, and the rule vectorizes no iterator of
  stage 0. And a stage with the extents 2, \<^verbatim>\<open>2^28\<close> and 16, innermost last: the cumulative
  extent of the two innermost iterators is \<^verbatim>\<open>2^32\<close>, above the bound, so the count in the
  words of the specification is 1; \<^verbatim>\<open>cum_length_prod\<close> holds 0 there, the walk counts all
  three iterators, and with the generator giving 1 two of them are fused and vectorized.\<close>

theorem InitVectorization_claimed_count_counterexample:
  "claimed_count_fusible example_env (example_policy (example_state [] []) True)
     (rev (iters plain_stage)) 1 = 2 \<and>
   count_fusible example_env (example_policy (example_state [] []) True) attached_state 0
     plain_stage (unroll_names example_env plain_stage) 0 1 = 0 \<and>
   fst (vectorize_stage example_env (example_policy (example_state [] []) True)
          attached_state 0) = attached_state \<and>
   transform_steps (fst (snd (projr (InitVectorization_Apply 5 example_env
     (example_policy (example_state [] []) True) attached_state)))) = [VectorizeStep 1 []] \<and>
   claimed_count_fusible example_env (example_policy (example_state [] []) True)
     (rev (iters wide_stage)) 1 = 1 \<and>
   extent_product example_env wide_stage 2 = 4294967296 \<and>
   cum_extent example_env wide_stage 2 = 0 \<and>
   count_fusible example_env (example_policy (example_state [] []) True)
     (example_state [wide_stage] []) 0 wide_stage (unroll_names example_env wide_stage) 0 1
     = 3 \<and>
   transform_steps (fst (vectorize_stage example_env
      ((example_policy (example_state [] []) True)\<lparr>rand_gen := (\<lambda>i. 1 + i)\<rparr>)
      (example_state [wide_stage] []) 0)) = [FuseStep 0 [], VectorizeStep 0 []]"
  by code_simp

section \<open>Properties of SampleInitPopulation\<close>




text \<open>With the invariant kept, a bound on the stages and a descending rank, no loop of an
  init rule is cut off: first the recursion of \<^verbatim>\<open>annotate_parallel\<close>, by induction on the
  fuel, then the loops over the stages, then the rules one by one.\<close>

lemma ends_in_Inr [simp]: "ends_in f good (Inr x) = good (f x)"
  by (simp add: ends_in_def)

lemma ends_in_Inl [simp]: "ends_in f good (Inl e) = (e \<noteq> OutOfFuel)"
  by (simp add: ends_in_def)


































text \<open>The hypothesis on the recursion is needed: on a stage that is attached to its own
  first iterator, where the scan stops at once, \<^verbatim>\<open>annotate_parallel\<close> calls itself with the
  arguments it was called with, and no amount of fuel is enough.\<close>

lemma annotate_parallel_cycle:
  "annotate_parallel fuel E policy cyclic_state 0 0 = Inl OutOfFuel"
proof (induction fuel)
  case 0
  then show ?case by simp
next
  case (Suc fuel)
  have st: "at_index (stages cyclic_state) 0 = Inr inner_stage"
    by (simp add: at_index_def cyclic_state_def)
  have scan: "parallel_scan E policy cyclic_state 0 (iters inner_stage) 0 [] 1 = ([], 1, 0)"
    by (subst parallel_scan.simps) (simp add: inner_stage_def Let_def)
  have look: "map_of (iter_to_attached_stages (attach_map cyclic_state)) (0, int 0) = Some [0]"
    by (simp add: cyclic_state_def)
  have att: "annotate_attached fuel E policy cyclic_state [0] = Inl OutOfFuel"
    using Suc by simp
  show ?case
    unfolding annotate_parallel.simps st scan Let_def sum.case fst_conv snd_conv look
      option.case att
    by simp
qed

lemma InitParallel_cycle:
  "InitRule_Apply fuel E InitParallel policy cyclic_state = Inl OutOfFuel"
proof -
  have len: "0 < length (stages cyclic_state)" by (simp add: cyclic_state_def)
  have root: "\<not> (compute_at (stages cyclic_state ! 0) \<noteq> kRoot \<or>
                 op_type (stages cyclic_state ! 0) = kPlaceholder)"
    by (simp add: cyclic_state_def inner_stage_def)
  have "parallel_stages fuel E policy 0 cyclic_state = Inl OutOfFuel"
  proof (cases fuel)
    case 0
    then show ?thesis using len by simp
  next
    case (Suc n)
    have "annotate_parallel (Suc n) E policy cyclic_state (int 0) 0 = Inl OutOfFuel"
      using annotate_parallel_cycle [of "Suc n" E policy] by simp
    then show ?thesis unfolding Suc parallel_stages.simps Let_def using len root by simp
  qed
  then show ?thesis by (simp add: InitParallel_Apply_def)
qed




section \<open>Properties of SearchOneRound and Search\<close>



text \<open>
  C1 (amended). A call of \<open>Search\<close> with \<open>n_trials \<le> 1\<close> leaves the measurer and the
  cost model as they were (no measurement, no reset, no update), runs exactly one round,
  \<open>SearchOneRound(0)\<close>, and, when the list of best states of that round is not empty,
  returns its first state. When the list is empty the check \<^verbatim>\<open>CHECK_GT(best_states.size(), 0)\<close>
  fails and no state is returned.
\<close>

theorem Search_without_measurement:
  assumes "n_trials \<le> 1"
  shows "snd (Search fuel E policy n_trials early_stopping n W) = W\<lparr>rounds := rounds W @ [0]\<rparr> \<and>
         fst (Search fuel E policy n_trials early_stopping n W) =
           (case SearchOneRound fuel E (policy\<lparr>num_measure_per_iter := n\<rparr>) 0 of
              Inl e \<Rightarrow> Inl e
            | Inr (best_states, random_states, policy') \<Rightarrow>
                (case best_states of
                   [] \<Rightarrow> Inl CheckFailed
                 | state # states \<Rightarrow> Inr (state, policy')))"
  using assms
  by (auto simp: Search_def Let_def split: sum.splits list.splits)

text \<open>With the random model on the example task: no call to the collaborators, one
  round, and the first sampled state is returned.\<close>

theorem Search_without_measurement_witness:
  "isl (fst (Search 5 example_env
          (example_policy (example_state [placeholder_stage, reduce_stage] []) True)
          1 (- 1) 4 no_calls)) = False \<and>
   transform_steps (fst (projr (fst (Search 5 example_env
          (example_policy (example_state [placeholder_stage, reduce_stage] []) True)
          1 (- 1) 4 no_calls)))) =
     [FuseStep 1 [1], SplitStep 1 1 (Some 16) [Some 2] True, RfactorStep 1 [1],
      ParallelStep 1 [], PragmaStep 1 [] ''auto_unroll_max_step$64''] \<and>
   snd (Search 5 example_env
          (example_policy (example_state [placeholder_stage, reduce_stage] []) True)
          1 (- 1) 4 no_calls) = \<lparr>measurer = [], cost_model_updates = [], rounds = [0]\<rparr>"
proof -
  let ?policy = "example_policy (example_state [placeholder_stage, reduce_stage] []) True"
  have a: "isl (fst (Search 5 example_env ?policy 1 (- 1) 4 no_calls)) = False" by code_simp
  have b: "transform_steps (fst (projr (fst (Search 5 example_env ?policy 1 (- 1) 4
             no_calls)))) =
     [FuseStep 1 [1], SplitStep 1 1 (Some 16) [Some 2] True, RfactorStep 1 [1],
      ParallelStep 1 [], PragmaStep 1 [] ''auto_unroll_max_step$64'']"
    by code_simp
  have c: "snd (Search 5 example_env ?policy 1 (- 1) 4 no_calls) =
             no_calls\<lparr>rounds := rounds no_calls @ [0]\<rparr>"
    using Search_without_measurement [of 1 5 example_env ?policy "- 1" 4 no_calls] by simp
  show ?thesis using a b c by (simp add: no_calls_def)
qed

text \<open>With a cost model that is not the random model the same call returns no state:
  the round gives no best state and the check fails.\<close>

theorem Search_returns_first_state_counterexample:
  "isl (fst (Search 5 example_env
          (example_policy (example_state [placeholder_stage, reduce_stage] []) False)
          1 (- 1) 4 no_calls)) \<and>
   projl (fst (Search 5 example_env
          (example_policy (example_state [placeholder_stage, reduce_stage] []) False)
          1 (- 1) 4 no_calls)) = CheckFailed"
  by code_simp

section \<open>Properties of PickStatesWithEpsGreedy\<close>

lemma pick_check_inv: "pick_inv U M ip \<Longrightarrow> pick_inv U M (pick_check U state ip)"
  by (auto simp: pick_inv_def pick_check_def Let_def)

lemma PickStates_loop_inv:
  "pick_inv U M ip \<Longrightarrow>
   pick_inv U M (PickStates_loop U cap num_good best_states random_states ob orr ip)"
proof (induction U cap num_good best_states random_states ob orr ip
        rule: PickStates_loop.induct)
  case (1 U cap num_good best_states random_states ob orr ip)
  note unfold = PickStates_loop.simps [of U cap num_good best_states random_states ob orr ip]
  show ?case
  proof (cases "int (length (fst ip)) < cap")
    case False
    then show ?thesis using "1.prems" by (simp add: unfold)
  next
    case True
    show ?thesis
    proof (cases "pick_select num_good best_states random_states ob orr (length (fst ip))")
      case None
      then show ?thesis using True "1.prems" by (simp add: unfold)
    next
      case (Some t)
      obtain state ob' orr' where t: "t = (state, ob', orr')" by (cases t) auto
      have "pick_inv U M (PickStates_loop U cap num_good best_states random_states ob' orr'
              (pick_check U state ip))"
        using "1.IH" [OF True Some [unfolded t] refl refl] pick_check_inv [OF "1.prems"] by blast
      then show ?thesis using True Some t by (simp add: unfold)
    qed
  qed
qed

lemma PickStatesWithEpsGreedy_inv:
  "pick_inv (utils E) (measured_states_set pol)
     (PickStatesWithEpsGreedy E pol best_states random_states remaining)"
  unfolding PickStatesWithEpsGreedy_def Let_def
  by (rule PickStates_loop_inv) (simp add: pick_inv_def)

lemma PickStates_calls_inv:
  "PickStates_calls E pol calls = (outs, pol') \<Longrightarrow>
     distinct (map (ToStr (utils E)) (concat outs)) \<and>
     measured_states_set pol' =
       measured_states_set pol \<union> ToStr (utils E) ` set (concat outs) \<and>
     ToStr (utils E) ` set (concat outs) \<inter> measured_states_set pol = {}"
proof (induction calls arbitrary: pol outs pol')
  case Nil
  then show ?case by simp
next
  case (Cons c calls)
  obtain b r n where c: "c = (b, r, n)" by (cases c) auto
  define r1 where "r1 = PickStatesWithEpsGreedy E pol b r n"
  define rest where "rest = PickStates_calls E (snd r1) calls"
  have outs: "outs = fst r1 # fst rest" and pol': "pol' = snd rest"
    using Cons.prems by (simp_all add: c r1_def rest_def Let_def)
  have i1: "pick_inv (utils E) (measured_states_set pol) r1"
    unfolding r1_def by (rule PickStatesWithEpsGreedy_inv)
  have i2: "distinct (map (ToStr (utils E)) (concat (fst rest))) \<and>
     measured_states_set (snd rest) =
       measured_states_set (snd r1) \<union> ToStr (utils E) ` set (concat (fst rest)) \<and>
     ToStr (utils E) ` set (concat (fst rest)) \<inter> measured_states_set (snd r1) = {}"
    by (rule Cons.IH) (simp add: rest_def)
  define A where "A = ToStr (utils E) ` set (fst r1)"
  define B where "B = ToStr (utils E) ` set (concat (fst rest))"
  have a: "measured_states_set (snd r1) = measured_states_set pol \<union> A"
    and b: "A \<inter> measured_states_set pol = {}"
    and d1: "distinct (map (ToStr (utils E)) (fst r1))"
    using i1 by (simp_all add: pick_inv_def A_def)
  have c: "measured_states_set (snd rest) = measured_states_set (snd r1) \<union> B"
    and d: "B \<inter> measured_states_set (snd r1) = {}"
    and d2: "distinct (map (ToStr (utils E)) (concat (fst rest)))"
    using i2 by (simp_all add: B_def)
  have AB: "A \<inter> B = {}" using a d by blast
  have img: "ToStr (utils E) ` set (concat outs) = A \<union> B"
    by (simp add: outs A_def B_def image_Un)
  have "distinct (map (ToStr (utils E)) (concat outs))"
    using d1 d2 AB by (simp add: outs A_def B_def)
  moreover have "measured_states_set pol' = measured_states_set pol \<union> (A \<union> B)"
    using a c by (simp add: pol' Un_assoc)
  moreover have "(A \<union> B) \<inter> measured_states_set pol = {}"
    using a b d by blast
  ultimately show ?case by (simp only: img)
qed

text \<open>
  C3. Across every sequence of calls of \<open>PickStatesWithEpsGreedy\<close> on one policy, the
  canonical strings (\<open>ToStr\<close>) of all the states returned are pairwise distinct; no
  returned state has a string that was in \<open>measured_states_set\<close> before the calls; and
  the set after the calls is the set before them with the string of every returned state.
\<close>

theorem PickStatesWithEpsGreedy_no_duplicates:
  "distinct (map (ToStr (utils E)) (concat (fst (PickStates_calls E policy calls)))) \<and>
   ToStr (utils E) ` set (concat (fst (PickStates_calls E policy calls)))
     \<inter> measured_states_set policy = {} \<and>
   measured_states_set (snd (PickStates_calls E policy calls)) =
     measured_states_set policy \<union>
     ToStr (utils E) ` set (concat (fst (PickStates_calls E policy calls)))"
  using PickStates_calls_inv [of E policy calls "fst (PickStates_calls E policy calls)"
          "snd (PickStates_calls E policy calls)"]
  by simp

text \<open>Two calls on the example policy (four measurements per call, two of them random).
  The lists repeat states within a call and across the calls; four states are returned,
  each once.\<close>

theorem PickStatesWithEpsGreedy_no_duplicates_witness:
  "map (map (ToStr (utils example_env)))
     (fst (PickStates_calls example_env (example_policy (example_state [] []) True)
        [([example_state [] [ComputeRootStep 0], example_state [] [ComputeInlineStep 0],
           example_state [] [ComputeRootStep 0]],
          [example_state [] [ComputeInlineStep 0], example_state [] [ParallelStep 0 []]],
          10),
         ([example_state [] [ComputeRootStep 0], example_state [] [ParallelStep 0 []],
           example_state [] [VectorizeStep 0 []]],
          [example_state [] [VectorizeStep 0 []]],
          10)]))
     = [[''R'', ''I'', ''P''], [''V'']] \<and>
   distinct (map (ToStr (utils example_env))
     (concat (fst (PickStates_calls example_env (example_policy (example_state [] []) True)
        [([example_state [] [ComputeRootStep 0], example_state [] [ComputeInlineStep 0],
           example_state [] [ComputeRootStep 0]],
          [example_state [] [ComputeInlineStep 0], example_state [] [ParallelStep 0 []]],
          10),
         ([example_state [] [ComputeRootStep 0], example_state [] [ParallelStep 0 []],
           example_state [] [VectorizeStep 0 []]],
          [example_state [] [VectorizeStep 0 []]],
          10)]))))"
proof -
  have "map (map (ToStr (utils example_env)))
     (fst (PickStates_calls example_env (example_policy (example_state [] []) True)
        [([example_state [] [ComputeRootStep 0], example_state [] [ComputeInlineStep 0],
           example_state [] [ComputeRootStep 0]],
          [example_state [] [ComputeInlineStep 0], example_state [] [ParallelStep 0 []]],
          10),
         ([example_state [] [ComputeRootStep 0], example_state [] [ParallelStep 0 []],
           example_state [] [VectorizeStep 0 []]],
          [example_state [] [VectorizeStep 0 []]],
          10)]))
     = [[''R'', ''I'', ''P''], [''V'']]"
    by code_simp
  then show ?thesis
    using PickStatesWithEpsGreedy_no_duplicates [of example_env
      "example_policy (example_state [] []) True"
      "[([example_state [] [ComputeRootStep 0], example_state [] [ComputeInlineStep 0],
           example_state [] [ComputeRootStep 0]],
          [example_state [] [ComputeInlineStep 0], example_state [] [ParallelStep 0 []]],
          10),
         ([example_state [] [ComputeRootStep 0], example_state [] [ParallelStep 0 []],
           example_state [] [VectorizeStep 0 []]],
          [example_state [] [VectorizeStep 0 []]],
          10)]"]
    by blast
qed

section \<open>The measured states over one run of Search\<close>

text \<open>Sketch generation, the init rules, the sampling of the population and
  \<^verbatim>\<open>SearchOneRound\<close> never touch the set of measured states: only
  \<^verbatim>\<open>PickStatesWithEpsGreedy\<close> writes it. So the picks of successive rounds of one search are
  made against the set left by the rounds before.\<close>

lemma MeetCondition_measured:
  "MeetCondition E rule policy state stage_id = Inr (cond, policy') \<Longrightarrow>
   measured_states_set policy' = measured_states_set policy"
  by (cases rule)
     (auto simp: RuleMultiLevelTilingWithFusion_MeetCondition_def Let_def
           split: sum.splits if_splits)

lemma try_rules_measured:
  "try_rules E rules policy state stage_id pnext = Inr (pnext', policy') \<Longrightarrow>
   measured_states_set policy' = measured_states_set policy"
proof (induction rules arbitrary: policy pnext)
  case Nil
  then show ?case by simp
next
  case (Cons rule rules)
  from Cons.prems obtain cond policy1 where
    m: "MeetCondition E rule policy state stage_id = Inr (cond, policy1)"
    by (auto split: sum.splits)
  have s1: "measured_states_set policy1 = measured_states_set policy"
    by (rule MeetCondition_measured [OF m])
  show ?case
  proof (cases "cond \<noteq> kPass")
    case False
    then have "try_rules E rules policy1 state stage_id pnext = Inr (pnext', policy')"
      using Cons.prems m by simp
    then show ?thesis using Cons.IH s1 by metis
  next
    case True
    from Cons.prems m True obtain pairs where
      a: "Apply E rule policy1 state stage_id = Inr pairs"
      by (auto split: sum.splits)
    show ?thesis
    proof (cases "cond = kApplyAndSkipRest")
      case True
      then have "policy' = policy1" using Cons.prems m a by simp
      then show ?thesis using s1 by simp
    next
      case False
      then have "try_rules E rules policy1 state stage_id (pnext @ pairs) = Inr (pnext', policy')"
        using Cons.prems m a True by simp
      then show ?thesis using Cons.IH s1 by metis
    qed
  qed
qed

lemma expand_frontier_measured:
  "expand_frontier E policy pnow pnext out_states = Inr (pnext', out_states', policy') \<Longrightarrow>
   measured_states_set policy' = measured_states_set policy"
proof (induction pnow arbitrary: policy pnext out_states)
  case Nil
  then show ?case by simp
next
  case (Cons p pnow)
  obtain state stage_id where p: "p = (state, stage_id)" by (cases p) auto
  show ?case
  proof (cases "stage_id < 0")
    case True
    then show ?thesis using Cons.prems Cons.IH p by simp
  next
    case False
    from Cons.prems p False obtain pnext1 policy1 where
      t: "try_rules E (sketch_rules policy) policy state stage_id pnext = Inr (pnext1, policy1)"
      by (auto split: sum.splits)
    have "expand_frontier E policy1 pnow pnext1 out_states = Inr (pnext', out_states', policy')"
      using Cons.prems p False t by simp
    then show ?thesis using Cons.IH try_rules_measured [OF t] by metis
  qed
qed

lemma enumerate_sketches_measured:
  "enumerate_sketches fuel E policy pnow out_states = Inr (out_states', policy') \<Longrightarrow>
   measured_states_set policy' = measured_states_set policy"
proof (induction fuel arbitrary: policy pnow out_states)
  case 0
  then show ?case by (cases pnow) auto
next
  case (Suc fuel)
  show ?case
  proof (cases pnow)
    case Nil
    then show ?thesis using Suc.prems by simp
  next
    case (Cons p ps)
    from Suc.prems Cons obtain pnext out1 policy1 where
      e: "expand_frontier E policy (p # ps) [] out_states = Inr (pnext, out1, policy1)"
      by (auto split: sum.splits)
    have "enumerate_sketches fuel E policy1 pnext out1 = Inr (out_states', policy')"
      using Suc.prems Cons e by simp
    then show ?thesis using Suc.IH expand_frontier_measured [OF e] by metis
  qed
qed

lemma GenerateSketches_measured:
  "GenerateSketches fuel E policy = Inr (sketches, policy') \<Longrightarrow>
   measured_states_set policy' = measured_states_set policy"
  by (auto simp: GenerateSketches_def Let_def split: sum.splits
           dest: enumerate_sketches_measured)

lemma fill_tile_sizes_measured:
  "fill_tile_sizes policy steps k = Inr (steps', policy') \<Longrightarrow>
   measured_states_set policy' = measured_states_set policy"
proof (induction "length steps - k" arbitrary: policy steps k)
  case 0
  then have "\<not> k < length steps" by simp
  then show ?case using "0.prems" by (simp add: fill_tile_sizes_done)
next
  case (Suc n)
  have lt: "k < length steps" using Suc.hyps(2) by simp
  show ?case
  proof (cases "needs_fill (steps ! k)")
    case False
    have run: "fill_tile_sizes policy steps (Suc k) = Inr (steps', policy')"
      using Suc.prems fill_tile_sizes_skip [OF lt False] by simp
    have n: "n = length steps - Suc k" using Suc.hyps(2) by simp
    show ?thesis using Suc.hyps(1) [OF n run] .
  next
    case True
    then obtain a b c l d where sp: "steps ! k = SplitStep a b c l d" and nd: "\<not> all_defined l"
      by (cases "steps ! k") auto
    note unfold = fill_tile_sizes_fill [OF lt sp nd, of policy]
    obtain ext where c: "c = Some ext"
      using Suc.prems unfold by (cases c) auto
    let ?schemes = "GetFactorizationSchemes (narrow_int ext) (length l)
                      (max_innermost_split_factor (params policy))"
    have sne: "?schemes \<noteq> []"
      using Suc.prems unfold c by (auto split: if_splits)
    let ?r = "rand_next (rand_gen policy)"
    let ?new = "SplitStep a b c (map Some (?schemes ! (fst ?r mod length ?schemes))) d"
    have run: "fill_tile_sizes (policy\<lparr>rand_gen := snd ?r\<rparr>) (steps[k := ?new]) (Suc k)
                 = Inr (steps', policy')"
      using Suc.prems unfold c sne by simp
    have n: "n = length (steps[k := ?new]) - Suc k" using Suc.hyps(2) by simp
    show ?thesis using Suc.hyps(1) [OF n run] by simp
  qed
qed

lemma change_location_stage_keeps:
  "keeps_measured policy (change_location_stage E policy state stage_id)"
  unfolding change_location_stage_def Let_def
  by (simp add: keeps_measured_def split: sum.split)

lemma change_location_stage_measured:
  "change_location_stage E policy state stage_id = Inr (state', policy') \<Longrightarrow>
   measured_states_set policy' = measured_states_set policy"
  using change_location_stage_keeps [of policy E state stage_id]
  by (simp add: keeps_measured_def)

lemma change_location_loop_measured:
  "change_location_loop E n policy state = Inr (state', policy') \<Longrightarrow>
   measured_states_set policy' = measured_states_set policy"
proof (induction n arbitrary: policy state)
  case 0
  then show ?case by simp
next
  case (Suc n)
  from Suc.prems obtain state1 policy1 where
    s: "change_location_stage E policy state (int n) = Inr (state1, policy1)"
    by (auto split: sum.splits)
  have "change_location_loop E n policy1 state1 = Inr (state', policy')"
    using Suc.prems s by simp
  then show ?case using Suc.IH change_location_stage_measured [OF s] by metis
qed

lemma vectorize_stage_measured:
  "measured_states_set (snd (vectorize_stage E policy state stage_id)) =
   measured_states_set policy"
  by (simp add: vectorize_stage_def Let_def)

lemma vectorize_stages_measured:
  "vectorize_stages fuel E policy stage_id state = Inr (state', policy') \<Longrightarrow>
   measured_states_set policy' = measured_states_set policy"
proof (induction fuel arbitrary: policy stage_id state)
  case 0
  then show ?case by (auto split: if_splits)
next
  case (Suc fuel)
  show ?case
  proof (cases "stage_id < length (stages state)")
    case False
    then show ?thesis using Suc.prems by simp
  next
    case True
    let ?r = "vectorize_stage E policy state stage_id"
    have "vectorize_stages fuel E (snd ?r) (Suc stage_id) (fst ?r) = Inr (state', policy')"
      using Suc.prems True by (simp add: Let_def)
    then show ?thesis using Suc.IH vectorize_stage_measured by metis
  qed
qed

lemma unroll_stage_keeps:
  "keeps_measured policy (unroll_stage E policy state stage_id)"
  unfolding unroll_stage_def Let_def
  by (simp add: keeps_measured_def split: sum.split)

lemma unroll_stage_measured:
  "unroll_stage E policy state stage_id = Inr (state', policy') \<Longrightarrow>
   measured_states_set policy' = measured_states_set policy"
  using unroll_stage_keeps [of policy E state stage_id]
  by (simp add: keeps_measured_def)

lemma unroll_stages_measured:
  "unroll_stages fuel E policy stage_id state = Inr (state', policy') \<Longrightarrow>
   measured_states_set policy' = measured_states_set policy"
proof (induction fuel arbitrary: policy stage_id state)
  case 0
  then show ?case by (auto split: if_splits)
next
  case (Suc fuel)
  show ?case
  proof (cases "stage_id < length (stages state)")
    case False
    then show ?thesis using Suc.prems by simp
  next
    case True
    from Suc.prems True obtain state1 policy1 where
      s: "unroll_stage E policy state stage_id = Inr (state1, policy1)"
      by (auto split: sum.splits)
    have "unroll_stages fuel E policy1 (Suc stage_id) state1 = Inr (state', policy')"
      using Suc.prems True s by simp
    then show ?thesis using Suc.IH unroll_stage_measured [OF s] by metis
  qed
qed

lemma InitRule_Apply_measured:
  assumes "InitRule_Apply fuel E rule policy state = Inr (kind, state', policy')"
  shows "measured_states_set policy' = measured_states_set policy"
proof (cases rule)
  case InitFillTileSize
  then obtain steps where "fill_tile_sizes policy (transform_steps state) 0 = Inr (steps, policy')"
    using assms by (auto simp: InitFillTileSize_Apply_def split: sum.splits)
  then show ?thesis by (rule fill_tile_sizes_measured)
next
  case InitChangeComputeLocation
  show ?thesis
  proof (cases "disable_change_compute_location (params policy) \<noteq> 0")
    case True
    then show ?thesis using assms InitChangeComputeLocation
      by (simp add: InitChangeComputeLocation_Apply_def)
  next
    case False
    then obtain s where
      "change_location_loop E (length (stages state)) policy state = Inr (s, policy')"
      using assms InitChangeComputeLocation
      by (auto simp: InitChangeComputeLocation_Apply_def split: sum.splits)
    then show ?thesis by (rule change_location_loop_measured)
  qed
next
  case InitParallel
  then show ?thesis using assms by (auto simp: InitParallel_Apply_def split: sum.splits)
next
  case InitVectorization
  then have "vectorize_stages fuel E policy 0 state = Inr (state', policy')"
    using assms by (auto simp: InitVectorization_Apply_def split: sum.splits)
  then show ?thesis by (rule vectorize_stages_measured)
next
  case InitUnroll
  then have "unroll_stages fuel E policy 0 state = Inr (state', policy')"
    using assms by (auto simp: InitUnroll_Apply_def split: sum.splits)
  then show ?thesis by (rule unroll_stages_measured)
qed

lemma apply_init_rules_measured:
  "apply_init_rules fuel E rules policy state = Inr (valid, state', policy') \<Longrightarrow>
   measured_states_set policy' = measured_states_set policy"
proof (induction rules arbitrary: policy state)
  case Nil
  then show ?case by simp
next
  case (Cons rule rules)
  from Cons.prems obtain kind state1 policy1 where
    a: "InitRule_Apply fuel E rule policy state = Inr (kind, state1, policy1)"
    by (auto split: sum.splits)
  have s1: "measured_states_set policy1 = measured_states_set policy"
    by (rule InitRule_Apply_measured [OF a])
  show ?case
  proof (cases "kind = kInvalid")
    case True
    then show ?thesis using Cons.prems a s1 by simp
  next
    case False
    then have "apply_init_rules fuel E rules policy1 state1 = Inr (valid, state', policy')"
      using Cons.prems a by simp
    then show ?thesis using Cons.IH s1 by metis
  qed
qed

lemma sample_loop_done:
  assumes "\<not> (int (length out_states) < out_size \<and> fail_ct < out_size)"
  shows "sample_loop fuel E sketches out_size policy out_states fail_ct =
           Inr (out_states, fail_ct, policy)"
proof -
  have c: "(int (length out_states) < out_size \<and> fail_ct < out_size) = False"
    using assms by blast
  show ?thesis
    unfolding sample_loop.simps [of fuel E sketches out_size policy out_states fail_ct] c
    by simp
qed

lemma sample_loop_measured:
  "sample_loop fuel E sketches out_size policy out_states fail_ct = Inr (out, fail_ct', policy')
   \<Longrightarrow> measured_states_set policy' = measured_states_set policy"
proof (induction "nat (out_size - int (length out_states)) + nat (out_size - fail_ct)"
         arbitrary: policy out_states fail_ct)
  case 0
  then have "\<not> (int (length out_states) < out_size \<and> fail_ct < out_size)" by auto
  then show ?case using "0.prems" by (simp add: sample_loop_done)
next
  case (Suc n)
  note unfold = sample_loop.simps [of fuel E sketches out_size policy out_states fail_ct]
  show ?case
  proof (cases "int (length out_states) < out_size \<and> fail_ct < out_size")
    case False
    then show ?thesis using Suc.prems by (simp add: sample_loop_done)
  next
    case True
    have ne: "sketches \<noteq> []" using Suc.prems True by (auto simp: unfold)
    let ?r = "rand_next (rand_gen policy)"
    let ?tmp = "sketches ! (fst ?r mod length sketches)"
    obtain valid tmp_s' policy1 where
      app: "apply_init_rules fuel E (init_rules policy) (policy\<lparr>rand_gen := snd ?r\<rparr>) ?tmp
              = Inr (valid, tmp_s', policy1)"
      using Suc.prems True ne by (auto simp: unfold Let_def split: sum.splits)
    have s1: "measured_states_set policy1 = measured_states_set policy"
      using apply_init_rules_measured [OF app] by simp
    show ?thesis
    proof (cases valid)
      case v: True
      have run: "sample_loop fuel E sketches out_size policy1 (out_states @ [tmp_s']) fail_ct
                   = Inr (out, fail_ct', policy')"
        using Suc.prems True ne app v by (simp add: unfold Let_def)
      have n: "n = nat (out_size - int (length (out_states @ [tmp_s']))) +
                   nat (out_size - fail_ct)"
        using Suc.hyps(2) True by (simp add: nat_diff_distrib) linarith
      show ?thesis using Suc.hyps(1) [OF n run] s1 by simp
    next
      case v: False
      have run: "sample_loop fuel E sketches out_size policy1 out_states (fail_ct + 1)
                   = Inr (out, fail_ct', policy')"
        using Suc.prems True ne app v by (simp add: unfold Let_def)
      have n: "n = nat (out_size - int (length out_states)) + nat (out_size - (fail_ct + 1))"
        using Suc.hyps(2) True by (simp add: nat_diff_distrib) linarith
      show ?thesis using Suc.hyps(1) [OF n run] s1 by simp
    qed
  qed
qed

lemma SampleInitPopulation_measured:
  "SampleInitPopulation fuel E policy sketches out_size = Inr (out, policy') \<Longrightarrow>
   measured_states_set policy' = measured_states_set policy"
  by (auto simp: SampleInitPopulation_def split: sum.splits dest: sample_loop_measured)

lemma SearchOneRound_measured:
  assumes "SearchOneRound fuel E policy n = Inr (best_states, random_states, policy')"
  shows "measured_states_set policy' = measured_states_set policy"
proof -
  from assms obtain sketches policy1 where
    g: "GenerateSketches fuel E policy = Inr (sketches, policy1)"
    by (auto simp: SearchOneRound_def Let_def split: sum.splits)
  let ?size = "if \<not> is_random_model (schedule_cost_model policy)
               then population (params policy) -
                    min (int (length (measured_states_vector policy)))
                      (use_measured_ratio_times (params policy) (population (params policy)))
               else population (params policy)"
  from assms g obtain pop policy2 where
    s: "SampleInitPopulation fuel E policy1 sketches ?size = Inr (pop, policy2)"
    by (auto simp: SearchOneRound_def Let_def split: sum.splits if_splits)
  have "measured_states_set policy' = measured_states_set policy2"
    using assms g s
    by (auto simp: SearchOneRound_def Let_def split: sum.splits if_splits)
  then show ?thesis
    using GenerateSketches_measured [OF g] SampleInitPopulation_measured [OF s] by simp
qed

lemma measured_inputs_append:
  "measured_inputs (xs @ ys) = measured_inputs xs @ measured_inputs ys"
  by (simp add: measured_inputs_def)

lemma search_measures_new_same:
  "measurer W' = measurer W \<Longrightarrow>
   (case r of Inl e \<Rightarrow> True
            | Inr policy' \<Rightarrow> measured_states_set policy' = measured_states_set policy) \<Longrightarrow>
   search_measures_new U policy W (r, W')"
  by (auto simp: search_measures_new_def measured_inputs_def split: sum.splits)

lemma search_measures_new_step:
  assumes pre: "take (length (hist @ [Measure ins])) hist' = hist @ [Measure ins]"
    and d: "distinct (map f ins)"
    and dj: "f ` set ins \<inter> M = {}"
    and d': "distinct (map f (measured_inputs (drop (length (hist @ [Measure ins])) hist')))"
    and dj': "f ` set (measured_inputs (drop (length (hist @ [Measure ins])) hist'))
                \<inter> (M \<union> f ` set ins) = {}"
  shows "take (length hist) hist' = hist \<and>
         distinct (map f (measured_inputs (drop (length hist) hist'))) \<and>
         f ` set (measured_inputs (drop (length hist) hist')) \<inter> M = {} \<and>
         M \<union> f ` set (measured_inputs (drop (length hist) hist')) =
           (M \<union> f ` set ins) \<union>
           f ` set (measured_inputs (drop (length (hist @ [Measure ins])) hist'))"
proof -
  define new where "new = drop (length (hist @ [Measure ins])) hist'"
  have "hist' = take (length (hist @ [Measure ins])) hist' @ new"
    unfolding new_def by simp
  then have whole: "hist' = hist @ [Measure ins] @ new" using pre by simp
  have tk: "take (length hist) hist' = hist" by (subst whole) simp
  have dr: "drop (length hist) hist' = [Measure ins] @ new" by (subst whole) simp
  have mi: "measured_inputs ([Measure ins] @ new) = ins @ measured_inputs new"
    by (simp add: measured_inputs_def)
  have d2: "distinct (map f (measured_inputs new))" using d' by (simp add: new_def)
  have dj2: "f ` set (measured_inputs new) \<inter> (M \<union> f ` set ins) = {}"
    using dj' by (simp add: new_def)
  have A: "distinct (map f (ins @ measured_inputs new))"
    using d d2 dj2 by auto
  have B: "f ` set (ins @ measured_inputs new) \<inter> M = {}"
    using dj dj2 by auto
  have C: "M \<union> f ` set (ins @ measured_inputs new) =
             (M \<union> f ` set ins) \<union> f ` set (measured_inputs new)"
    by auto
  show ?thesis unfolding tk dr mi using A B C by (simp add: new_def)
qed

lemma search_loop_measures_new:
  "search_measures_new (utils E) policy W
     (search_loop fuel E n_trials early_stopping num_random policy W inputs results ct)"
proof (induction "nat (n_trials - ct)" arbitrary: policy W inputs results ct
         rule: less_induct)
  case less
  note unfold = search_loop.simps [of fuel E n_trials early_stopping num_random policy W
                  inputs results ct]
  show ?case
  proof (cases "ct < n_trials")
    case False
    then have "search_loop fuel E n_trials early_stopping num_random policy W inputs results ct
                 = (Inr policy, W)"
      by (simp add: unfold)
    then show ?thesis by (simp add: search_measures_new_same)
  next
    case lt: True
    define W2 where "W2 =
      (if inputs \<noteq> [] then
         W\<lparr>cost_model_updates := cost_model_updates W @ [(inputs, results)]\<rparr> else W)
      \<lparr>rounds := rounds (if inputs \<noteq> [] then
         W\<lparr>cost_model_updates := cost_model_updates W @ [(inputs, results)]\<rparr> else W)
         @ [num_random]\<rparr>"
    have m2: "measurer W2 = measurer W" by (simp add: W2_def)
    show ?thesis
    proof (cases "SearchOneRound fuel E policy num_random")
      case (Inl e)
      then have "search_loop fuel E n_trials early_stopping num_random policy W inputs results
                   ct = (Inl e, W2)"
        using lt by (simp add: unfold Let_def W2_def)
      then show ?thesis using m2 by (simp add: search_measures_new_same)
    next
      case (Inr t)
      obtain best0 random0 policy1 where t: "t = (best0, random0, policy1)" by (cases t) auto
      have s1: "measured_states_set policy1 = measured_states_set policy"
        using SearchOneRound_measured Inr t by blast
      define picked where "picked =
        PickStatesWithEpsGreedy E policy1 (map (InferBound (transforms E)) best0)
          (map (InferBound (transforms E)) random0) (n_trials - ct)"
      define ins where "ins = fst picked"
      define policy2 where "policy2 = snd picked"
      have inv: "pick_inv (utils E) (measured_states_set policy1) picked"
        unfolding picked_def by (rule PickStatesWithEpsGreedy_inv)
      have d: "distinct (map (ToStr (utils E)) ins)"
        and s2: "measured_states_set policy2 =
                   measured_states_set policy \<union> ToStr (utils E) ` set ins"
        and dj: "ToStr (utils E) ` set ins \<inter> measured_states_set policy = {}"
        using inv s1 by (simp_all add: pick_inv_def ins_def policy2_def)
      define results' where "results' = measure_results (collab E) (measurer W2) ins"
      define W3 where "W3 = W2\<lparr>measurer := measurer W2 @ [Measure ins]\<rparr>"
      define ct' where "ct' = ct + int (length ins)"
      define policy3 where "policy3 =
        policy2\<lparr>measured_states_throughputs :=
                   measured_states_throughputs policy2 @
                   map (\<lambda>res. 1 / FloatArrayMean (collab E) (costs res)) results'\<rparr>"
      have m3: "measurer W3 = measurer W @ [Measure ins]" by (simp add: W3_def m2)
      have step: "search_loop fuel E n_trials early_stopping num_random policy W inputs results
                    ct =
          (if ins = [] then (Inr policy2, W2)
           else if ct' - best_ct (collab E) (measurer W3) > early_stopping
             then (Inr policy2, W3)
           else search_loop fuel E n_trials early_stopping num_random policy3 W3 ins results'
                  ct')"
        using lt Inr t
        by (simp add: unfold Let_def W2_def picked_def ins_def policy2_def results'_def
              W3_def ct'_def policy3_def)
      show ?thesis
      proof (cases "ins = []")
        case True
        then have "measured_states_set policy2 = measured_states_set policy" using s2 by simp
        then show ?thesis using True step m2 by (simp add: search_measures_new_same)
      next
        case ne: False
        show ?thesis
        proof (cases "ct' - best_ct (collab E) (measurer W3) > early_stopping")
          case True
          then have r: "search_loop fuel E n_trials early_stopping num_random policy W inputs
                          results ct = (Inr policy2, W3)"
            using step ne by simp
          show ?thesis
            unfolding r search_measures_new_def using m3 d s2 dj
            by (simp add: measured_inputs_def)
        next
          case False
          define rec where "rec =
            search_loop fuel E n_trials early_stopping num_random policy3 W3 ins results' ct'"
          have r: "search_loop fuel E n_trials early_stopping num_random policy W inputs
                     results ct = rec"
            using step ne False by (simp add: rec_def)
          have pos: "0 < length ins" using ne by simp
          have n: "nat (n_trials - ct') < nat (n_trials - ct)"
            using lt pos by (simp add: ct'_def)
          have IH: "search_measures_new (utils E) policy3 W3 rec"
            unfolding rec_def by (rule less.hyps [OF n])
          have s3: "measured_states_set policy3 =
                      measured_states_set policy \<union> ToStr (utils E) ` set ins"
            using s2 by (simp add: policy3_def)
          have pre: "take (length (measurer W @ [Measure ins])) (measurer (snd rec)) =
                       measurer W @ [Measure ins]"
            and d': "distinct (map (ToStr (utils E))
                       (measured_inputs (drop (length (measurer W @ [Measure ins]))
                          (measurer (snd rec)))))"
            and dj': "ToStr (utils E) ` set (measured_inputs
                         (drop (length (measurer W @ [Measure ins])) (measurer (snd rec))))
                       \<inter> (measured_states_set policy \<union> ToStr (utils E) ` set ins) = {}"
            and fin: "case fst rec of
                        Inl e \<Rightarrow> True
                      | Inr policy' \<Rightarrow>
                          measured_states_set policy' =
                            (measured_states_set policy \<union> ToStr (utils E) ` set ins) \<union>
                            ToStr (utils E) ` set (measured_inputs
                              (drop (length (measurer W @ [Measure ins]))
                                 (measurer (snd rec))))"
            using IH unfolding search_measures_new_def m3 s3 by blast+
          note st = search_measures_new_step [OF pre d dj d' dj']
          have "case fst rec of
                  Inl e \<Rightarrow> True
                | Inr policy' \<Rightarrow>
                    measured_states_set policy' =
                      measured_states_set policy \<union>
                      ToStr (utils E) ` set (measured_inputs
                        (drop (length (measurer W)) (measurer (snd rec))))"
            using fin st by (simp split: sum.splits)
          then show ?thesis unfolding r search_measures_new_def using st by blast
        qed
      qed
    qed
  qed
qed


text \<open>The whole of \<^verbatim>\<open>Search\<close>: the measurer's history is only extended, and the states it is
  given during the call have pairwise distinct canonical strings, none of them in the set the
  policy had at the call.\<close>

lemma Search_measures_distinct:
  "take (length (measurer W))
     (measurer (snd (Search fuel E policy0 n_trials early_stopping per_iter W))) = measurer W \<and>
   distinct (map (ToStr (utils E))
     (measured_inputs (drop (length (measurer W))
        (measurer (snd (Search fuel E policy0 n_trials early_stopping per_iter W)))))) \<and>
   ToStr (utils E) ` set (measured_inputs (drop (length (measurer W))
        (measurer (snd (Search fuel E policy0 n_trials early_stopping per_iter W)))))
     \<inter> measured_states_set policy0 = {}"
proof (cases "n_trials \<le> 1")
  case True
  then have "measurer (snd (Search fuel E policy0 n_trials early_stopping per_iter W))
               = measurer W"
    by (simp add: Search_def Let_def split: sum.splits prod.splits)
  then show ?thesis by (simp add: measured_inputs_def)
next
  case False
  define policy where "policy = policy0\<lparr>num_measure_per_iter := per_iter\<rparr>"
  define W1 where "W1 = W\<lparr>measurer := measurer W @ [Reset]\<rparr>"
  define r where "r =
    search_loop fuel E n_trials
      (if early_stopping < 0 then 2147483647 div 2 else early_stopping)
      (eps_greedy_times (params policy) per_iter) policy W1 [] [] 0"
  have sn: "snd (Search fuel E policy0 n_trials early_stopping per_iter W) = snd r"
    using False
    by (simp add: Search_def Let_def policy_def W1_def r_def split: sum.splits prod.splits)
  have inv: "search_measures_new (utils E) policy W1 r"
    unfolding r_def by (rule search_loop_measures_new)
  define new where "new = drop (length (measurer W1)) (measurer (snd r))"
  have m1: "measurer W1 = measurer W @ [Reset]" by (simp add: W1_def)
  have "measurer (snd r) = take (length (measurer W1)) (measurer (snd r)) @ new"
    unfolding new_def by simp
  then have whole: "measurer (snd r) = measurer W @ [Reset] @ new"
    using inv m1 by (simp add: search_measures_new_def)
  have tk: "take (length (measurer W)) (measurer (snd r)) = measurer W"
    by (subst whole) simp
  have dr: "drop (length (measurer W)) (measurer (snd r)) = [Reset] @ new"
    by (subst whole) simp
  have mi: "measured_inputs ([Reset] @ new) = measured_inputs new"
    by (simp add: measured_inputs_def)
  have ms: "measured_states_set policy = measured_states_set policy0"
    by (simp add: policy_def)
  have d: "distinct (map (ToStr (utils E)) (measured_inputs new))"
    and dj: "ToStr (utils E) ` set (measured_inputs new) \<inter> measured_states_set policy0 = {}"
    using inv ms unfolding search_measures_new_def new_def by simp_all
  show ?thesis unfolding sn tk dr mi using d dj by simp
qed

end
